theory Spec2Isabelle
  imports Main "HOL-Library.Word" "HOL-Library.Signed_Division" "HOL-Library.Sublist"
begin

unbundle bit_operations_syntax

section \<open>Bytes, buffers and outcomes\<close>

text \<open>
  The eMRTD engine of \<^verbatim>\<open>client/src/cmdhfemrtd.c\<close> works on \<^verbatim>\<open>uint8_t\<close> buffers.
  A byte is an 8-bit word, a buffer is the list of the bytes that have been written to it.
\<close>

type_synonym byte = "8 word"

text \<open>
  A C function of the engine either returns normally, returns \<^verbatim>\<open>false\<close>, or reads or
  writes outside the part of a buffer that holds data (before its start, past the end of a
  fixed-size array, or in bytes nobody has written yet). The last case has no defined result
  in C; the model reports it as \<open>OutOfBounds\<close> instead of inventing a value.
\<close>

datatype error = Failed | OutOfBounds

definition peek :: "byte list \<Rightarrow> nat \<Rightarrow> error + byte" where
  "peek buf i = (if i < length buf then Inr (buf ! i) else Inl OutOfBounds)"

definition be_nat :: "byte list \<Rightarrow> nat" where
  "be_nat bs = foldl (\<lambda>a b. a * 256 + unat b) 0 bs"

section \<open>MRZ check digit\<close>

text \<open>
  \<^verbatim>\<open>char\<close> is read as a signed 8-bit value, as on the x86 hosts the client is built for;
  all characters of the MRZ alphabet are below 128, where signedness plays no role.
\<close>

definition char_val :: "char \<Rightarrow> int" where
  "char_val c = (let n = of_char c in if n < 128 then n else n - 256)"

definition mrz_weight :: "int list" where
  "mrz_weight = [7, 3, 1]"

text \<open>The \<^verbatim>\<open>if\<close> chain in the loop body of \<^verbatim>\<open>emrtd_calculate_check_digit\<close>.\<close>

definition mrz_value :: "char \<Rightarrow> int" where
  "mrz_value c =
     (let d = char_val c in
      if char_val CHR ''A'' \<le> d \<and> d \<le> char_val CHR ''Z'' then d - 55
      else if char_val CHR ''a'' \<le> d \<and> d \<le> char_val CHR ''z'' then d - 87
      else if d = char_val CHR ''<'' then 0
      else d - 48)"

definition int_ok :: "int \<Rightarrow> bool" where
  "int_ok v \<longleftrightarrow> - (2 ^ 31) \<le> v \<and> v < 2 ^ 31"

text \<open>
  The loop \<^verbatim>\<open>for (int i = 0; i < strlen(data); i++)\<close>; \<open>data\<close> holds the characters
  before the terminating NUL. \<^verbatim>\<open>cd\<close> is a 32-bit \<^verbatim>\<open>int\<close>: a sum that leaves its range
  is undefined in C.
\<close>

fun emrtd_calculate_check_digit_loop :: "string \<Rightarrow> nat \<Rightarrow> int \<Rightarrow> error + int" where
  "emrtd_calculate_check_digit_loop [] i cd = Inr cd"
| "emrtd_calculate_check_digit_loop (d # ds) i cd =
     (let cd' = cd + mrz_value d * (mrz_weight ! (i mod 3))
      in if int_ok cd' then emrtd_calculate_check_digit_loop ds (Suc i) cd'
         else Inl OutOfBounds)"

text \<open>\<^verbatim>\<open>return cd % 10;\<close> with C's remainder, which truncates towards zero.\<close>

definition emrtd_calculate_check_digit :: "string \<Rightarrow> error + int" where
  "emrtd_calculate_check_digit data =
     (case emrtd_calculate_check_digit_loop data 0 0 of
        Inl e \<Rightarrow> Inl e
      | Inr cd \<Rightarrow> Inr (cd smod 10))"

text \<open>
  \<^verbatim>\<open>emrtd_compare_check_digit\<close> copies \<^verbatim>\<open>datalen\<close> characters into the zeroed array
  \<^verbatim>\<open>tempdata[90]\<close> and reads it back as a C string, so it needs a NUL inside the array.
  The digit is stored in a \<^verbatim>\<open>uint8_t\<close> after adding 0x30 and compared with the expected
  character.
\<close>

definition emrtd_compare_check_digit :: "string \<Rightarrow> nat \<Rightarrow> char \<Rightarrow> error + bool" where
  "emrtd_compare_check_digit datain datalen expected_check_digit =
     (if length datain < datalen \<or> 90 < datalen then Inl OutOfBounds
      else let tempdata = take datalen datain @ replicate (90 - datalen) (CHR 0x00)
           in if CHR 0x00 \<notin> set tempdata then Inl OutOfBounds
              else case emrtd_calculate_check_digit (takeWhile (\<lambda>c. c \<noteq> CHR 0x00) tempdata) of
                     Inl e \<Rightarrow> Inl e
                   | Inr cd \<Rightarrow>
                       let check_digit = (cd + 0x30) mod 256
                       in Inr (check_digit = char_val expected_check_digit))"

subsection \<open>The MRZ alphabet\<close>

text \<open>
  The characters the claims about the check digit range over: upper-case and lower-case
  letters, digits and the filler \<open><\<close>. \<open>mrz_upper\<close> maps a lower-case letter to its
  upper-case form and leaves every other character alone.
\<close>

definition is_mrz_char :: "char \<Rightarrow> bool" where
  "is_mrz_char c \<longleftrightarrow>
     (let d = char_val c in
      (65 \<le> d \<and> d \<le> 90) \<or> (97 \<le> d \<and> d \<le> 122) \<or> (48 \<le> d \<and> d \<le> 57) \<or> d = 60)"

definition mrz_upper :: "char \<Rightarrow> char" where
  "mrz_upper c = (if 97 \<le> char_val c \<and> char_val c \<le> 122 then char_of (char_val c - 32) else c)"

definition is_lower :: "char \<Rightarrow> bool" where
  "is_lower c \<longleftrightarrow> char_val CHR ''a'' \<le> char_val c \<and> char_val c \<le> char_val CHR ''z''"

section \<open>ASN.1 length fields\<close>

text \<open>
  \<^verbatim>\<open>emrtd_get_asn1_data_length(datain, datainlen, offset)\<close> reads the length byte at
  \<^verbatim>\<open>datain + offset\<close> and, for the long forms, the bytes behind it. \<^verbatim>\<open>datainlen\<close> is
  only returned, never used as a bound.
\<close>

definition emrtd_get_asn1_data_length :: "byte list \<Rightarrow> nat \<Rightarrow> nat \<Rightarrow> error + nat" where
  "emrtd_get_asn1_data_length datain datainlen offset =
     (case peek datain offset of
        Inl e \<Rightarrow> Inl e
      | Inr lenfield \<Rightarrow>
          if lenfield \<le> 0x7f then Inr (unat lenfield)
          else if lenfield = 0x80 then Inr datainlen
          else if lenfield = 0x81 then
            (case peek datain (offset + 1) of
               Inl e \<Rightarrow> Inl e
             | Inr b1 \<Rightarrow> Inr (unat b1))
          else if lenfield = 0x82 then
            (case (peek datain (offset + 1), peek datain (offset + 2)) of
               (Inr b1, Inr b2) \<Rightarrow> Inr (push_bit 8 (unat b1) OR unat b2)
             | _ \<Rightarrow> Inl OutOfBounds)
          else if lenfield = 0x83 then
            (case (peek datain (offset + 1), peek datain (offset + 2), peek datain (offset + 3)) of
               (Inr b1, Inr b2, Inr b3) \<Rightarrow>
                 Inr ((push_bit 16 (unat b1) OR push_bit 8 (unat b2)) OR unat b3)
             | _ \<Rightarrow> Inl OutOfBounds)
          else Inr 0)"

definition emrtd_get_asn1_field_length :: "byte list \<Rightarrow> nat \<Rightarrow> nat \<Rightarrow> error + nat" where
  "emrtd_get_asn1_field_length datain datainlen offset =
     (case peek datain offset of
        Inl e \<Rightarrow> Inl e
      | Inr lenfield \<Rightarrow>
          if lenfield \<le> 0x80 then Inr 1
          else if lenfield = 0x81 then Inr 2
          else if lenfield = 0x82 then Inr 3
          else if lenfield = 0x83 then Inr 4
          else Inr 0)"

section \<open>The send sequence counter\<close>


text \<open>
  \<^verbatim>\<open>emrtd_bump_ssc\<close>: the loop \<^verbatim>\<open>for (int i = 7; i > 0; i--)\<close> walks from the last byte
  towards the front. A byte equal to 0xFF is set to 0 and the loop goes on; any other byte is
  incremented and the function returns. The loop stops when \<^verbatim>\<open>i\<close> reaches 0, so the
  byte at index 0 is never read or written. The argument always points to an 8-byte array.
\<close>

fun emrtd_bump_ssc_loop :: "nat \<Rightarrow> byte list \<Rightarrow> byte list" where
  "emrtd_bump_ssc_loop 0 ssc = ssc"
| "emrtd_bump_ssc_loop (Suc j) ssc =
     (if ssc ! Suc j = 0xFF then emrtd_bump_ssc_loop j (ssc[Suc j := 0])
      else ssc[Suc j := ssc ! Suc j + 1])"

definition emrtd_bump_ssc :: "byte list \<Rightarrow> byte list" where
  "emrtd_bump_ssc ssc = emrtd_bump_ssc_loop 7 ssc"

section \<open>Cryptographic collaborators\<close>

text \<open>
  DES, two-key triple DES in CBC mode and SHA-1 come from libraries that are not part of the
  source under study (\<^verbatim>\<open>mbedtls_des_*\<close>, \<^verbatim>\<open>mbedtls_des3_*\<close>, \<^verbatim>\<open>sha1hash\<close>). The model
  takes them as parameters:
  \<^item> \<open>des_ecb_enc k b\<close>, \<open>des_ecb_dec k b\<close>: one DES block operation under the 8-byte key
    \<open>k\<close> (\<^verbatim>\<open>mbedtls_des_setkey_enc\<close> or \<^verbatim>\<open>mbedtls_des_setkey_dec\<close>, then
    \<^verbatim>\<open>mbedtls_des_crypt_ecb\<close>);
  \<^item> \<open>des3_cbc_enc k iv input\<close>, \<open>des3_cbc_dec k iv input\<close>: \<^verbatim>\<open>mbedtls_des3_crypt_cbc\<close>
    under the 16-byte key \<open>k\<close>; the result is the output together with the initialisation
    vector as the call leaves it (the library updates the caller's \<^verbatim>\<open>iv\<close> array);
  \<^item> \<open>sha1 data\<close>: the SHA-1 digest.
\<close>

record crypto =
  des_ecb_enc :: "byte list \<Rightarrow> byte list \<Rightarrow> byte list"
  des_ecb_dec :: "byte list \<Rightarrow> byte list \<Rightarrow> byte list"
  des3_cbc_enc :: "byte list \<Rightarrow> byte list \<Rightarrow> byte list \<Rightarrow> byte list \<times> byte list"
  des3_cbc_dec :: "byte list \<Rightarrow> byte list \<Rightarrow> byte list \<Rightarrow> byte list \<times> byte list"
  sha1 :: "byte list \<Rightarrow> byte list"

text \<open>
  What the real collaborators guarantee about sizes, where a statement needs it: a DES block
  operation on an 8-byte key and an 8-byte block gives 8 bytes; a SHA-1 digest has 20 bytes.
\<close>

definition block_cipher :: "crypto \<Rightarrow> bool" where
  "block_cipher cr \<longleftrightarrow>
     (\<forall>k b. length k = 8 \<and> length b = 8 \<longrightarrow>
        length (des_ecb_enc cr k b) = 8 \<and> length (des_ecb_dec cr k b) = 8)"

definition sha1_digest :: "crypto \<Rightarrow> bool" where
  "sha1_digest cr \<longleftrightarrow> (\<forall>x. length (sha1 cr x) = 20)"

text \<open>The wrappers of the source: they read 8 key bytes and 8 input bytes, and give 8 bytes.\<close>

definition des_encrypt_ecb :: "crypto \<Rightarrow> byte list \<Rightarrow> byte list \<Rightarrow> byte list" where
  "des_encrypt_ecb cr key input = take 8 (des_ecb_enc cr (take 8 key) (take 8 input))"

definition des_decrypt_ecb :: "crypto \<Rightarrow> byte list \<Rightarrow> byte list \<Rightarrow> byte list" where
  "des_decrypt_ecb cr key input = take 8 (des_ecb_dec cr (take 8 key) (take 8 input))"

text \<open>
  \<^verbatim>\<open>des3_encrypt_cbc(iv, key, input, inputlen, output)\<close> and its decrypting twin: the result
  is the pair of \<^verbatim>\<open>output\<close> and the updated \<^verbatim>\<open>iv\<close>.
\<close>

definition des3_encrypt_cbc ::
  "crypto \<Rightarrow> byte list \<Rightarrow> byte list \<Rightarrow> byte list \<Rightarrow> nat \<Rightarrow> byte list \<times> byte list" where
  "des3_encrypt_cbc cr iv key input inputlen =
     (let (output, iv') = des3_cbc_enc cr (take 16 key) (take 8 iv) (take inputlen input)
      in (take inputlen output, take 8 iv'))"

definition des3_decrypt_cbc ::
  "crypto \<Rightarrow> byte list \<Rightarrow> byte list \<Rightarrow> byte list \<Rightarrow> nat \<Rightarrow> byte list \<times> byte list" where
  "des3_decrypt_cbc cr iv key input inputlen =
     (let (output, iv') = des3_cbc_dec cr (take 16 key) (take 8 iv) (take inputlen input)
      in (take inputlen output, take 8 iv'))"

text \<open>
  Modelled from the spec: \<^verbatim>\<open>mbedtls_des_key_set_parity\<close> is not in the source tree; the spec
  says it forces odd parity on each byte of an 8-byte block (the DES key-parity convention).
  The upper seven bits of a byte are kept and the lowest bit is chosen so that the number of
  one bits is odd.
\<close>

definition popcount :: "byte \<Rightarrow> nat" where
  "popcount b = length (filter (bit b) [0..<8])"

definition odd_parity :: "byte \<Rightarrow> byte" where
  "odd_parity b = (let hi = b AND 0xFE in if even (popcount hi) then hi OR 1 else hi)"

definition mbedtls_des_key_set_parity :: "byte list \<Rightarrow> byte list" where
  "mbedtls_des_key_set_parity key = map odd_parity (take 8 key)"

section \<open>Padding and retail MAC\<close>

text \<open>
  \<^verbatim>\<open>pad_block(input, inputlen, output)\<close> copies \<^verbatim>\<open>inputlen\<close> bytes and appends the first
  \<^verbatim>\<open>8 - inputlen % 8\<close> bytes of \<^verbatim>\<open>{0x80, 0, 0, 0, 0, 0, 0, 0}\<close>. The model returns the
  bytes written to \<^verbatim>\<open>output\<close>; the C return value is their number. The caller owns
  \<^verbatim>\<open>output\<close> and its size.
\<close>

definition pad_block :: "byte list \<Rightarrow> nat \<Rightarrow> error + byte list" where
  "pad_block input inputlen =
     (if length input < inputlen then Inl OutOfBounds
      else let padding = [0x80, 0x00, 0x00, 0x00, 0x00, 0x00, 0x00, 0x00];
               to_pad = 8 - inputlen mod 8
           in Inr (take inputlen input @ take to_pad padding))"

text \<open>
  \<^verbatim>\<open>retail_mac(key, input, inputlen, output)\<close>. The padded message goes to the local array
  \<^verbatim>\<open>message[256]\<close> (``This code assumes blocklength (n) = 8, and input len of up to 240 or
  so chars''); a longer one overruns it. The \<^verbatim>\<open>for\<close> loop over the blocks is a fold over
  the block indices, with \<^verbatim>\<open>intermediate\<close> as its state.
\<close>

definition retail_mac :: "crypto \<Rightarrow> byte list \<Rightarrow> byte list \<Rightarrow> nat \<Rightarrow> error + byte list" where
  "retail_mac cr key input inputlen =
     (if length key < 16 then Inl OutOfBounds
      else
        let k0 = take 8 key;
            k1 = take 8 (drop 8 key)
        in case pad_block input inputlen of
             Inl e \<Rightarrow> Inl e
           | Inr message \<Rightarrow>
               if 256 < length message then Inl OutOfBounds
               else
                 let blocksize = length message;
                     intermediate =
                       fold (\<lambda>i intermediate.
                               let block = take 8 (drop (i * 8) message);
                                   x = map2 (XOR) intermediate block
                               in take 8 (des_encrypt_ecb cr k0 x))
                            [0..<blocksize div 8] (replicate 8 0x00);
                     intermediate = take 8 (des_decrypt_ecb cr k1 intermediate)
                 in Inr (take 8 (des_encrypt_ecb cr k0 intermediate)))"

subsection \<open>ISO 9797-1 MAC algorithm 3, after the specification\<close>

text \<open>
  The specification's wording, for comparison with \<open>retail_mac\<close>: pad with method 2 (0x80,
  then zeros up to a multiple of 8, always), cut into 8-byte blocks, chain them with DES
  encryption under \<open>K0\<close> from the zero block, then decrypt under \<open>K1\<close> and encrypt under
  \<open>K0\<close>.
\<close>

definition iso9797_pad2 :: "byte list \<Rightarrow> byte list" where
  "iso9797_pad2 msg = msg @ [0x80] @ replicate (7 - length msg mod 8) 0x00"

fun chop8 :: "nat \<Rightarrow> byte list \<Rightarrow> byte list list" where
  "chop8 0 xs = []"
| "chop8 (Suc n) xs = take 8 xs # chop8 n (drop 8 xs)"

definition blocks8 :: "byte list \<Rightarrow> byte list list" where
  "blocks8 xs = chop8 (length xs div 8) xs"

definition retail_mac_spec :: "crypto \<Rightarrow> byte list \<Rightarrow> byte list \<Rightarrow> byte list" where
  "retail_mac_spec cr key msg =
     (let K0 = take 8 key;
          K1 = take 8 (drop 8 key);
          h = foldl (\<lambda>c b. des_encrypt_ecb cr K0 (map2 (XOR) c b)) (replicate 8 0x00)
                (blocks8 (iso9797_pad2 msg))
      in des_encrypt_ecb cr K0 (des_decrypt_ecb cr K1 h))"

section \<open>Key derivation\<close>

definition KENC_type :: "byte list" where
  "KENC_type = [0x00, 0x00, 0x00, 0x01]"

definition KMAC_type :: "byte list" where
  "KMAC_type = [0x00, 0x00, 0x00, 0x02]"

text \<open>
  \<^verbatim>\<open>emrtd_deskey(seed, type, length, dataout)\<close>; the parameter \<^verbatim>\<open>length\<close> is called
  \<open>len\<close> here. \<^verbatim>\<open>data[50]\<close> receives \<open>len\<close> bytes of the seed and the 4 bytes of the
  type; \<^verbatim>\<open>key[64]\<close> receives the digest; the parity loop rewrites the blocks
  \<open>0 .. (len + 4) / 8 - 1\<close> of \<^verbatim>\<open>key\<close> in place; \<open>len\<close> bytes of \<^verbatim>\<open>key\<close> are copied
  out.
\<close>

definition emrtd_deskey :: "crypto \<Rightarrow> byte list \<Rightarrow> byte list \<Rightarrow> nat \<Rightarrow> error + byte list" where
  "emrtd_deskey cr seed type len =
     (if length seed < len \<or> length type < 4 \<or> 50 < len + 4 then Inl OutOfBounds
      else
        let data = take len seed @ take 4 type;
            key = sha1 cr (take (len + 4) data);
            key = fold (\<lambda>i key. take (i * 8) key
                                 @ mbedtls_des_key_set_parity (drop (i * 8) key)
                                 @ drop (i * 8 + 8) key)
                       [0..<(len + 4) div 8] key
        in if length key < len then Inl OutOfBounds else Inr (take len key))"

text \<open>
  The first part of \<^verbatim>\<open>emrtd_do_bac\<close>, up to the two calls of \<^verbatim>\<open>emrtd_deskey\<close> that give
  \<^verbatim>\<open>kenc\<close> and \<^verbatim>\<open>kmac\<close>: the three check digits, the string \<^verbatim>\<open>kmrz\<close> printed with
  \<^verbatim>\<open>"%s%i%s%i%s%i"\<close> into \<^verbatim>\<open>kmrz[25]\<close>, its SHA-1 digest \<^verbatim>\<open>kseed\<close>, and the two keys.
  A check digit lies between -9 and 9, so \<^verbatim>\<open>%i\<close> prints one digit, with a sign if negative.
\<close>

definition print_i :: "int \<Rightarrow> string" where
  "print_i v = (if 0 \<le> v then [char_of (48 + v)] else [CHR ''-'', char_of (48 - v)])"

definition emrtd_do_bac_keys ::
  "crypto \<Rightarrow> string \<Rightarrow> string \<Rightarrow> string \<Rightarrow> error + byte list \<times> byte list" where
  "emrtd_do_bac_keys cr documentnumber dob expiry =
     (case (emrtd_calculate_check_digit documentnumber,
            emrtd_calculate_check_digit dob,
            emrtd_calculate_check_digit expiry) of
        (Inr documentnumbercd, Inr dobcd, Inr expirycd) \<Rightarrow>
          let kmrz = documentnumber @ print_i documentnumbercd @ dob @ print_i dobcd
                     @ expiry @ print_i expirycd
          in if 25 < length kmrz + 1 then Inl OutOfBounds
             else
               let kseed = take 20 (sha1 cr (map of_char kmrz))
               in case (emrtd_deskey cr kseed KENC_type 16, emrtd_deskey cr kseed KMAC_type 16) of
                    (Inr kenc, Inr kmac) \<Rightarrow> Inr (kenc, kmac)
                  | _ \<Rightarrow> Inl OutOfBounds
      | _ \<Rightarrow> Inl OutOfBounds)"

section \<open>A stand-in for the collaborators\<close>

text \<open>
  To run the model on concrete inputs the parameters need values. \<open>toy_crypto\<close> is a small
  stand-in with the interface of the real collaborators: the block operation adds the key to
  the block byte by byte (and subtracts it to decrypt), the triple operation is
  encrypt-decrypt-encrypt under the two halves of the key, CBC chains the blocks and leaves
  the last cipher block as the new initialisation vector, and the digest is 20 bytes that
  depend on the sum of the input. Nothing about its strength is claimed or used.
\<close>

definition toy_enc :: "byte list \<Rightarrow> byte list \<Rightarrow> byte list" where
  "toy_enc k b = map2 (+) b k"

definition toy_dec :: "byte list \<Rightarrow> byte list \<Rightarrow> byte list" where
  "toy_dec k b = map2 (-) b k"

definition toy_ede :: "byte list \<Rightarrow> byte list \<Rightarrow> byte list" where
  "toy_ede k b = toy_enc (take 8 k) (toy_dec (drop 8 k) (toy_enc (take 8 k) b))"

definition toy_ded :: "byte list \<Rightarrow> byte list \<Rightarrow> byte list" where
  "toy_ded k b = toy_dec (take 8 k) (toy_enc (drop 8 k) (toy_dec (take 8 k) b))"

fun toy_cbc_enc :: "byte list \<Rightarrow> byte list \<Rightarrow> byte list list \<Rightarrow> byte list \<times> byte list" where
  "toy_cbc_enc k iv [] = ([], iv)"
| "toy_cbc_enc k iv (p # ps) =
     (let c = toy_ede k (map2 (XOR) p iv);
          (cs, iv') = toy_cbc_enc k c ps
      in (c @ cs, iv'))"

fun toy_cbc_dec :: "byte list \<Rightarrow> byte list \<Rightarrow> byte list list \<Rightarrow> byte list \<times> byte list" where
  "toy_cbc_dec k iv [] = ([], iv)"
| "toy_cbc_dec k iv (c # cs) =
     (let p = map2 (XOR) (toy_ded k c) iv;
          (ps, iv') = toy_cbc_dec k c cs
      in (p @ ps, iv'))"

definition toy_sha1 :: "byte list \<Rightarrow> byte list" where
  "toy_sha1 data = map (\<lambda>i. fold (+) data (of_nat i)) [0..<20]"

definition toy_crypto :: crypto where
  "toy_crypto =
     \<lparr> des_ecb_enc = toy_enc,
       des_ecb_dec = toy_dec,
       des3_cbc_enc = (\<lambda>k iv input. toy_cbc_enc k iv (blocks8 input)),
       des3_cbc_dec = (\<lambda>k iv input. toy_cbc_dec k iv (blocks8 input)),
       sha1 = toy_sha1 \<rparr>"

section \<open>The LDS tag reader\<close>

definition read_bytes :: "byte list \<Rightarrow> nat \<Rightarrow> nat \<Rightarrow> error + byte list" where
  "read_bytes buf off n = (if off + n \<le> length buf then Inr (take n (drop off buf)) else Inl OutOfBounds)"

definition emrtd_lds_determine_tag_length :: "byte \<Rightarrow> nat" where
  "emrtd_lds_determine_tag_length tag = (if tag = 0x5F \<or> tag = 0x7F then 2 else 1)"

text \<open>
  \<^verbatim>\<open>emrtd_lds_get_data_by_tag\<close>. \<open>datain\<close> is the memory behind the pointer, \<open>datainlen\<close>
  the length the caller announces. One pass through the body of the \<^verbatim>\<open>while\<close> loop either
  leaves the function (\<open>Return\<close>, with the copied value, \<^verbatim>\<open>false\<close>, or an access outside
  \<open>datain\<close>) or goes round again with a new \<^verbatim>\<open>offset\<close> and \<^verbatim>\<open>skipcounter\<close>
  (\<open>Continue\<close>). The value is copied to the caller's \<^verbatim>\<open>dataout\<close>, whose size the function
  does not know; the model returns the copied bytes, and \<^verbatim>\<open>*dataoutlen\<close> is their number.
\<close>

datatype lds_step = Continue nat nat | Return "error + byte list"

definition emrtd_lds_get_data_by_tag_body ::
  "byte list \<Rightarrow> nat \<Rightarrow> int \<Rightarrow> int \<Rightarrow> bool \<Rightarrow> nat \<Rightarrow> nat \<Rightarrow> nat \<Rightarrow> lds_step" where
  "emrtd_lds_get_data_by_tag_body datain datainlen tag1 tag2 twobytetag skiptagcount offset skipcounter =
     (case peek datain offset of
        Inl e \<Rightarrow> Return (Inl e)
      | Inr t \<Rightarrow>
          let e_idlen = emrtd_lds_determine_tag_length t in
          case (emrtd_get_asn1_data_length (drop offset datain) (datainlen - offset) e_idlen,
                emrtd_get_asn1_field_length (drop offset datain) (datainlen - offset) e_idlen) of
            (Inr e_datalen, Inr e_fieldlen) \<Rightarrow>
              (case (if uint t = tag1 \<and> twobytetag then peek datain (offset + 1) else Inr t) of
                 Inl e \<Rightarrow> Return (Inl e)
               | Inr t2 \<Rightarrow>
                   if uint t = tag1 \<and> (\<not> twobytetag \<or> uint t2 = tag2) then
                     if skipcounter < skiptagcount then
                       Continue (offset + (e_idlen + e_datalen + e_fieldlen)) (skipcounter + 1)
                     else if datainlen > e_datalen then
                       Return (read_bytes datain (offset + e_idlen + e_fieldlen) e_datalen)
                     else Return (Inl Failed)
                   else Continue (offset + (e_idlen + e_datalen + e_fieldlen)) skipcounter)
          | _ \<Rightarrow> Return (Inl OutOfBounds))"

lemma emrtd_lds_get_data_by_tag_body_advances:
  "emrtd_lds_get_data_by_tag_body datain datainlen tag1 tag2 twobytetag skiptagcount offset skipcounter
     = Continue offset' skipcounter' \<Longrightarrow> offset < offset'"
  by (auto simp: emrtd_lds_get_data_by_tag_body_def emrtd_lds_determine_tag_length_def Let_def
      split: sum.splits if_splits)

function emrtd_lds_get_data_by_tag_loop ::
  "byte list \<Rightarrow> nat \<Rightarrow> int \<Rightarrow> int \<Rightarrow> bool \<Rightarrow> nat \<Rightarrow> nat \<Rightarrow> nat \<Rightarrow> error + byte list" where
  "emrtd_lds_get_data_by_tag_loop datain datainlen tag1 tag2 twobytetag skiptagcount offset skipcounter =
     (if offset < datainlen then
        case emrtd_lds_get_data_by_tag_body datain datainlen tag1 tag2 twobytetag skiptagcount
               offset skipcounter of
          Return r \<Rightarrow> r
        | Continue offset' skipcounter' \<Rightarrow>
            emrtd_lds_get_data_by_tag_loop datain datainlen tag1 tag2 twobytetag skiptagcount
              offset' skipcounter'
      else Inl Failed)"
  by pat_completeness auto
termination
  by (relation "measure (\<lambda>(datain, datainlen, tag1, tag2, twobytetag, skiptagcount, offset, skipcounter).
                    datainlen - offset)")
     (auto dest: emrtd_lds_get_data_by_tag_body_advances)

definition emrtd_lds_get_data_by_tag ::
  "byte list \<Rightarrow> nat \<Rightarrow> int \<Rightarrow> int \<Rightarrow> bool \<Rightarrow> bool \<Rightarrow> nat \<Rightarrow> error + byte list" where
  "emrtd_lds_get_data_by_tag datain datainlen tag1 tag2 twobytetag entertoptag skiptagcount =
     (case (if entertoptag then
              (case peek datain 0 of
                 Inl e \<Rightarrow> Inl e
               | Inr t \<Rightarrow>
                   let offset = emrtd_lds_determine_tag_length t in
                   case emrtd_get_asn1_field_length datain datainlen offset of
                     Inl e \<Rightarrow> Inl e
                   | Inr fieldlen \<Rightarrow> Inr (offset + fieldlen))
            else Inr 0) of
        Inl e \<Rightarrow> Inl e
      | Inr offset \<Rightarrow>
          emrtd_lds_get_data_by_tag_loop datain datainlen tag1 tag2 twobytetag skiptagcount offset 0)"

subsection \<open>Top-level elements, after the specification\<close>

text \<open>
  An LDS element is a tag, a length field and a value. The tag has two bytes when its first
  byte is 0x5F or 0x7F and one byte otherwise; the length field is a short form (one byte up
  to 0x7F) or a long form (0x81, 0x82 or 0x83 and as many big-endian bytes) that gives the
  number of value bytes. A lookup matches an element on its first byte and, for a two-byte
  tag, on its second byte; it returns the value of the match number \<open>skipCount + 1\<close>.
\<close>

type_synonym element = "byte list \<times> byte list \<times> byte list"

definition tag_ok :: "byte list \<Rightarrow> bool" where
  "tag_ok t \<longleftrightarrow> t \<noteq> [] \<and> length t = emrtd_lds_determine_tag_length (hd t)"

definition length_field :: "byte list \<Rightarrow> nat \<Rightarrow> bool" where
  "length_field l n \<longleftrightarrow>
     (case l of
        [b] \<Rightarrow> b \<le> 0x7F \<and> n = unat b
      | [a, b1] \<Rightarrow> a = 0x81 \<and> n = be_nat [b1]
      | [a, b1, b2] \<Rightarrow> a = 0x82 \<and> n = be_nat [b1, b2]
      | [a, b1, b2, b3] \<Rightarrow> a = 0x83 \<and> n = be_nat [b1, b2, b3]
      | _ \<Rightarrow> False)"

definition element_ok :: "element \<Rightarrow> bool" where
  "element_ok e = (case e of (t, l, v) \<Rightarrow> tag_ok t \<and> length_field l (length v))"

definition encode :: "element \<Rightarrow> byte list" where
  "encode e = (case e of (t, l, v) \<Rightarrow> t @ l @ v)"

definition element_value :: "element \<Rightarrow> byte list" where
  "element_value e = (case e of (t, l, v) \<Rightarrow> v)"

definition tag_matches :: "int \<Rightarrow> int \<Rightarrow> bool \<Rightarrow> element \<Rightarrow> bool" where
  "tag_matches tag1 tag2 twobytetag e \<longleftrightarrow>
     uint (encode e ! 0) = tag1 \<and> (twobytetag \<longrightarrow> uint (encode e ! 1) = tag2)"

definition find_element :: "int \<Rightarrow> int \<Rightarrow> bool \<Rightarrow> nat \<Rightarrow> element list \<Rightarrow> error + byte list" where
  "find_element tag1 tag2 twobytetag skipCount es =
     (case drop skipCount (filter (tag_matches tag1 tag2 twobytetag) es) of
        [] \<Rightarrow> Inl Failed
      | e # _ \<Rightarrow> Inr (element_value e))"

section \<open>Commands and the chip\<close>

text \<open>
  Commands are built as hexadecimal text with \<^verbatim>\<open>sprintf\<close>. \<open>printf_X w n\<close> is the
  conversion \<^verbatim>\<open>%0wX\<close> of a non-negative number: its upper-case hexadecimal digits, padded
  with zeros on the left to at least \<open>w\<close> characters.
\<close>

definition hex_digit :: "nat \<Rightarrow> char" where
  "hex_digit n = ''0123456789ABCDEF'' ! (n mod 16)"

function hex_of_nat :: "nat \<Rightarrow> string" where
  "hex_of_nat n = (if n < 16 then [hex_digit n] else hex_of_nat (n div 16) @ [hex_digit n])"
  by pat_completeness auto
termination
  by (relation "measure id") auto

declare hex_of_nat.simps [simp del]

definition printf_X :: "nat \<Rightarrow> nat \<Rightarrow> string" where
  "printf_X w n = replicate (w - length (hex_of_nat n)) (CHR ''0'') @ hex_of_nat n"

text \<open>
  Modelled from the spec: \<^verbatim>\<open>sprint_hex_inrow\<close> is not in the source tree; the spec lays the
  APDUs out as their bytes one after the other, so the model prints each byte as two
  upper-case hexadecimal digits without separators.
\<close>

definition sprint_hex_inrow :: "byte list \<Rightarrow> nat \<Rightarrow> string" where
  "sprint_hex_inrow data len = concat (map (\<lambda>b. printf_X 2 (unat b)) (take len data))"



text \<open>
  The chip is not part of the program, and the way to it ends in the reader hardware:
  \<^verbatim>\<open>param_gethex_to_eol\<close> turns the command text into bytes, \<^verbatim>\<open>ExchangeAPDU14a\<close> (of the
  ISO 14443-A commands) and \<^verbatim>\<open>exchange_14b_apdu\<close> frame them and hand them to the device.
  The model takes the whole way, from the command text to the response, as one parameter: a
  function from the protocol flag, the command text, the two field flags and the state of
  the chip to the raw response (data and status word, or \<open>None\<close> when the exchange reports
  an error) and the next state of the chip.
\<close>

type_synonym 'c transceive = "bool \<Rightarrow> string \<Rightarrow> bool \<Rightarrow> bool \<Rightarrow> 'c \<Rightarrow> byte list option \<times> 'c"

text \<open>\<^verbatim>\<open>get_sw(d, n)\<close>; \<^verbatim>\<open>n\<close> is a \<^verbatim>\<open>uint8_t\<close>, so the length is taken modulo 256.\<close>

definition get_sw :: "byte list \<Rightarrow> nat \<Rightarrow> nat" where
  "get_sw d n = (let n = n mod 256
                 in if n < 2 then 0 else unat (d ! (n - 2)) * 0x0100 + unat (d ! (n - 2 + 1)))"

text \<open>
  \<^verbatim>\<open>emrtd_exchange_commands\<close>. The result has the returned truth value, the bytes written
  to \<^verbatim>\<open>dataout\<close> (their number goes to \<^verbatim>\<open>*dataoutlen\<close>; \<open>None\<close> when the function
  returns before writing) and the next state of the chip. The response without its status
  word is written before the status word is checked. The caller owns \<^verbatim>\<open>dataout\<close> and its
  size. Log output is left out of the model throughout.
\<close>

definition emrtd_exchange_commands ::
  "'c transceive \<Rightarrow> string \<Rightarrow> bool \<Rightarrow> bool \<Rightarrow> bool \<Rightarrow> 'c \<Rightarrow> bool \<times> byte list option \<times> 'c" where
  "emrtd_exchange_commands xc cmd activate_field keep_field_on use_14b chip =
     (case xc use_14b cmd activate_field keep_field_on chip of
        (None, chip') \<Rightarrow> (False, None, chip')
      | (Some response, chip') \<Rightarrow>
          let resplen = length response in
          if resplen < 2 then (False, None, chip')
          else
            let dataout = take (resplen - 2) response;
                sw = get_sw response resplen
            in if sw \<noteq> 0x9000 then (False, Some dataout, chip')
               else (True, Some dataout, chip'))"

definition emrtd_get_challenge ::
  "'c transceive \<Rightarrow> nat \<Rightarrow> bool \<Rightarrow> 'c \<Rightarrow> bool \<times> byte list option \<times> 'c" where
  "emrtd_get_challenge xc len use_14b chip =
     emrtd_exchange_commands xc (''00'' @ ''84'' @ ''0000'' @ printf_X 2 len) False True use_14b chip"

definition emrtd_external_authenticate ::
  "'c transceive \<Rightarrow> byte list \<Rightarrow> nat \<Rightarrow> bool \<Rightarrow> 'c \<Rightarrow> bool \<times> byte list option \<times> 'c" where
  "emrtd_external_authenticate xc data len use_14b chip =
     emrtd_exchange_commands xc
       (''00'' @ ''82'' @ ''0000'' @ printf_X 2 len @ sprint_hex_inrow data len @ printf_X 2 len)
       False True use_14b chip"



section \<open>Secure messaging\<close>









section \<open>Reading a file\<close>







section \<open>Basic Access Control\<close>

text \<open>\<^verbatim>\<open>rng\<close> fills its output with zeros (the generator is commented out in the source).\<close>

definition rng :: "nat \<Rightarrow> byte list" where
  "rng len = replicate len 0x00"

text \<open>
  \<open>zero_init n data\<close> is what an array of \<open>n\<close> bytes initialised with \<^verbatim>\<open>{ 0x00 }\<close> holds
  after \<open>data\<close> has been written to its front.
\<close>

definition zero_init :: "nat \<Rightarrow> byte list \<Rightarrow> byte list" where
  "zero_init n data = take n (data @ replicate n 0x00)"

text \<open>
  \<^verbatim>\<open>emrtd_do_bac\<close>. The keys come from \<open>emrtd_do_bac_keys\<close> above. The challenge is
  received in \<^verbatim>\<open>rnd_ic[8]\<close>. The array \<^verbatim>\<open>iv\<close> is shared by the encryption of \<^verbatim>\<open>S\<close> and
  the decryption of the response, so the decryption starts from the initialisation vector
  that the encryption left. The response to EXTERNAL AUTHENTICATE is received in a zeroed
  array, of which 32 bytes are decrypted. \<^verbatim>\<open>memcmp(rnd_ifd, dec_output + 8, 8)\<close> compares
  \<^verbatim>\<open>rnd_ifd\<close> with the bytes 8 to 15 of the decrypted block. Of \<^verbatim>\<open>kseed\<close> the first 16
  bytes are rewritten and read. The result is the counter and the two session keys.
\<close>

definition emrtd_do_bac ::
  "crypto \<Rightarrow> 'c transceive \<Rightarrow> string \<Rightarrow> string \<Rightarrow> string \<Rightarrow> bool \<Rightarrow> 'c \<Rightarrow>
   (error + byte list \<times> byte list \<times> byte list) \<times> 'c" where
  "emrtd_do_bac cr xc documentnumber dob expiry use_14b chip =
     (let rnd_ifd = rng 8;
          k_ifd = rng 16
      in case emrtd_do_bac_keys cr documentnumber dob expiry of
           Inl e \<Rightarrow> (Inl e, chip)
         | Inr (kenc, kmac) \<Rightarrow>
             (case emrtd_get_challenge xc 8 use_14b chip of
                (ok, None, chip1) \<Rightarrow> (Inl Failed, chip1)
              | (ok, Some challenge, chip1) \<Rightarrow>
                  if 8 < length challenge then (Inl OutOfBounds, chip1)
                  else if \<not> ok then (Inl Failed, chip1)
                  else
                    let rnd_ic = zero_init 8 challenge;
                        S = rnd_ifd @ rnd_ic @ k_ifd;
                        iv = replicate 8 0x00;
                        (e_ifd, iv) = des3_encrypt_cbc cr iv kenc S 32;
                        e_ifd = zero_init 32 e_ifd
                    in case retail_mac cr kmac e_ifd 32 of
                         Inl e \<Rightarrow> (Inl e, chip1)
                       | Inr m_ifd \<Rightarrow>
                           let cmd_data = e_ifd @ zero_init 8 m_ifd in
                           (case emrtd_external_authenticate xc cmd_data 40 use_14b chip1 of
                              (True, Some response, chip2) \<Rightarrow>
                                let dec_output =
                                      zero_init 32
                                        (fst (des3_decrypt_cbc cr iv kenc (zero_init 32 response) 32))
                                in if rnd_ifd \<noteq> take 8 (drop 8 dec_output) then (Inl Failed, chip2)
                                   else
                                     let k_icc = take 16 (drop 16 dec_output);
                                         kseed = map2 (XOR) k_ifd k_icc
                                     in (case (emrtd_deskey cr kseed KENC_type 16,
                                               emrtd_deskey cr kseed KMAC_type 16) of
                                           (Inr ks_enc, Inr ks_mac) \<Rightarrow>
                                             let ssc = take 4 (drop 4 rnd_ic) @ take 4 (drop 4 rnd_ifd)
                                             in (Inr (ssc, ks_enc, ks_mac), chip2)
                                         | _ \<Rightarrow> (Inl OutOfBounds, chip2))
                            | (_, _, chip2) \<Rightarrow> (Inl Failed, chip2))))"

section \<open>A scripted chip\<close>

text \<open>
  A stand-in for the chip, to run the model: it answers the command number \<open>n\<close> with the
  entry number \<open>n\<close> of a script of raw responses and reports a transport error when the
  script has run out. Its state is the number of commands received so far.
\<close>

definition scripted_chip :: "byte list list \<Rightarrow> nat transceive" where
  "scripted_chip script use_14b cmd activate_field keep_field_on n =
     (if n < length script then Some (script ! n) else None, Suc n)"

section \<open>The reads a file read makes\<close>









section \<open>Properties\<close>



text \<open>
  C3. The claim asks for a big-endian increment over all eight bytes, so that
  FF FF FF FF FF FF FF FF becomes 00 00 00 00 00 00 00 00. The loop of
  \<^verbatim>\<open>emrtd_bump_ssc\<close> never reaches index 0: the carry out of byte 1 is dropped and byte 0
  keeps its value. On FF FF FF FF FF FF FF FF the code yields FF 00 00 00 00 00 00 00, and on
  00 FF FF FF FF FF FF FF it yields 00 00 00 00 00 00 00 00 instead of
  01 00 00 00 00 00 00 00. The second example of the claim, 00 .. 00 to 00 .. 01, holds.
\<close>

theorem emrtd_bump_ssc_drops_carry:
  "emrtd_bump_ssc [0xFF, 0xFF, 0xFF, 0xFF, 0xFF, 0xFF, 0xFF, 0xFF]
     = [0xFF, 0, 0, 0, 0, 0, 0, 0]
   \<and> emrtd_bump_ssc [0, 0xFF, 0xFF, 0xFF, 0xFF, 0xFF, 0xFF, 0xFF] = [0, 0, 0, 0, 0, 0, 0, 0]
   \<and> emrtd_bump_ssc [0, 0, 0, 0, 0, 0, 0, 0] = [0, 0, 0, 0, 0, 0, 0, 1]"
  by code_simp

subsection \<open>Check digit\<close>

lemma char_val_consts: "char_val CHR ''A'' = 65" "char_val CHR ''Z'' = 90" "char_val CHR ''a'' = 97"
  "char_val CHR ''z'' = 122" "char_val CHR ''<'' = 60"
  by (simp_all add: char_val_def)

lemma mrz_value_range: "is_mrz_char c \<Longrightarrow> 0 \<le> mrz_value c \<and> mrz_value c \<le> 35"
  by (auto simp: is_mrz_char_def mrz_value_def char_val_consts Let_def)

lemma char_val_char_of: "0 \<le> n \<Longrightarrow> n < 128 \<Longrightarrow> char_val (char_of n) = n"
  by (simp add: char_val_def Let_def)

lemma mrz_value_upper: "mrz_value (mrz_upper c) = mrz_value c"
  apply (auto simp: mrz_upper_def mrz_value_def char_val_consts Let_def char_val_char_of)
  done

lemma mrz_weight_nth: "0 \<le> mrz_weight ! (i mod 3) \<and> mrz_weight ! (i mod 3) \<le> 7"
proof -
  have "i mod 3 = 0 \<or> i mod 3 = 1 \<or> i mod 3 = 2" by arith
  then show ?thesis by (auto simp: mrz_weight_def)
qed

lemma loop_bounds:
  "list_all is_mrz_char ds \<Longrightarrow> 0 \<le> cd \<Longrightarrow> cd + 245 * int (length ds) < 2 ^ 31 \<Longrightarrow>
   \<exists>r. emrtd_calculate_check_digit_loop ds i cd = Inr r \<and> cd \<le> r \<and> r \<le> cd + 245 * int (length ds)"
proof (induction ds arbitrary: i cd)
  case Nil
  then show ?case by simp
next
  case (Cons d ds)
  let ?t = "mrz_value d * (mrz_weight ! (i mod 3))"
  have v: "0 \<le> mrz_value d" "mrz_value d \<le> 35" using Cons.prems(1) mrz_value_range by auto
  have w: "0 \<le> mrz_weight ! (i mod 3)" "mrz_weight ! (i mod 3) \<le> 7" using mrz_weight_nth by auto
  have t0: "0 \<le> ?t" using v w by simp
  have "?t \<le> 35 * 7" using v w by (intro mult_mono) auto
  then have t1: "?t \<le> 245" by simp
  have ok: "int_ok (cd + ?t)" using t0 t1 Cons.prems by (simp add: int_ok_def)
  have "\<exists>r. emrtd_calculate_check_digit_loop ds (Suc i) (cd + ?t) = Inr r \<and> cd + ?t \<le> r
          \<and> r \<le> cd + ?t + 245 * int (length ds)"
    using Cons.prems t0 t1 by (intro Cons.IH) auto
  then show ?case using ok t0 t1 by (auto simp: Let_def)
qed

lemma loop_upper:
  "emrtd_calculate_check_digit_loop (map mrz_upper ds) i cd = emrtd_calculate_check_digit_loop ds i cd"
  by (induction ds arbitrary: i cd) (simp_all add: mrz_value_upper Let_def)


lemma mrz_not_nul: "is_mrz_char c \<Longrightarrow> c \<noteq> CHR 0x00"
  by (auto simp: is_mrz_char_def char_val_def Let_def)

lemma takeWhile_mrz:
  "list_all is_mrz_char data \<Longrightarrow> 0 < k \<Longrightarrow>
   takeWhile (\<lambda>c. c \<noteq> CHR 0x00) (data @ replicate k (CHR 0x00)) = data"
  by (induction data) (auto simp: mrz_not_nul gr0_conv_Suc)

lemma compare_mrz:
  assumes "list_all is_mrz_char data" "length data < 90"
    and "emrtd_calculate_check_digit data = Inr v" "0 \<le> v" "v \<le> 9"
  shows "emrtd_compare_check_digit (data @ rest) (length data) e = Inr (char_val e = v + 0x30)"
proof -
  have "(v + 48) mod 256 = v + 48" using assms(4,5) by simp
  then show ?thesis
    using assms(1-3) by (auto simp: emrtd_compare_check_digit_def Let_def takeWhile_mrz)
qed

lemma check_digit_mrz:
  assumes "list_all is_mrz_char data" and "length data < 2 ^ 23"
  shows "\<exists>v. emrtd_calculate_check_digit data = Inr v \<and> 0 \<le> v \<and> v \<le> 9"
proof -
  have "245 * int (length data) < 2 ^ 31" using assms(2) by simp
  then obtain r where r: "emrtd_calculate_check_digit_loop data 0 0 = Inr r" "0 \<le> r"
    using loop_bounds [OF assms(1), of 0 0] by auto
  have "r smod 10 = r mod 10" using r(2) by (simp add: signed_modulo_int_def sgn_if)
  then show ?thesis using r(1) by (simp add: emrtd_calculate_check_digit_def)
qed

text \<open>
  C10. For every string over the MRZ alphabet (shorter than \<open>2 ^ 23\<close> characters, so that
  the 32-bit sum cannot overflow) \<^verbatim>\<open>emrtd_calculate_check_digit\<close> returns a number between 0
  and 9, not an ASCII digit; the same number is returned for the string with its lower-case
  letters replaced by upper-case ones; \<^verbatim>\<open>emrtd_compare_check_digit\<close> accepts exactly the
  character whose code is that number plus 0x30; and a lower-case letter has the value
  \<open>char - 87\<close>, between 10 and 35, the value of the corresponding upper-case letter.
\<close>

theorem emrtd_calculate_check_digit_numeric:
  assumes "list_all is_mrz_char data" and "length data < 2 ^ 23"
  shows "\<exists>v. emrtd_calculate_check_digit data = Inr v \<and> 0 \<le> v \<and> v \<le> 9
           \<and> emrtd_calculate_check_digit (map mrz_upper data) = Inr v
           \<and> (length data < 90 \<longrightarrow>
                (\<forall>rest e. emrtd_compare_check_digit (data @ rest) (length data) e
                           = Inr (char_val e = v + 0x30)))
           \<and> (\<forall>c. is_lower c \<longrightarrow>
                mrz_value c = char_val c - 87 \<and> 10 \<le> mrz_value c \<and> mrz_value c \<le> 35
                \<and> mrz_value (mrz_upper c) = mrz_value c)"
proof -
  have "245 * int (length data) < 2 ^ 31" using assms(2) by simp
  then obtain r where r: "emrtd_calculate_check_digit_loop data 0 0 = Inr r" "0 \<le> r"
    using loop_bounds [OF assms(1), of 0 0] by auto
  let ?v = "r smod 10"
  have v: "?v = r mod 10" using r(2) by (simp add: signed_modulo_int_def sgn_if)
  have cd: "emrtd_calculate_check_digit data = Inr ?v"
    using r(1) by (simp add: emrtd_calculate_check_digit_def)
  have range: "0 \<le> ?v" "?v \<le> 9" using v by simp_all
  have up: "emrtd_calculate_check_digit (map mrz_upper data) = Inr ?v"
    using r(1) by (simp add: emrtd_calculate_check_digit_def loop_upper)
  have cmp: "length data < 90 \<longrightarrow>
     (\<forall>rest e. emrtd_compare_check_digit (data @ rest) (length data) e = Inr (char_val e = ?v + 0x30))"
    using compare_mrz [OF assms(1) _ cd range] by blast
  have low: "\<forall>c. is_lower c \<longrightarrow>
                mrz_value c = char_val c - 87 \<and> 10 \<le> mrz_value c \<and> mrz_value c \<le> 35
                \<and> mrz_value (mrz_upper c) = mrz_value c"
  proof (intro allI impI conjI)
    fix c assume c: "is_lower c"
    show "mrz_value c = char_val c - 87" "10 \<le> mrz_value c" "mrz_value c \<le> 35"
      using c by (auto simp: is_lower_def mrz_value_def char_val_consts Let_def)
    show "mrz_value (mrz_upper c) = mrz_value c" by (rule mrz_value_upper)
  qed
  show ?thesis using cd range up cmp low by blast
qed

theorem emrtd_calculate_check_digit_numeric_witness:
  "emrtd_calculate_check_digit ''l898902c3'' = Inr 6
   \<and> emrtd_calculate_check_digit ''L898902C3'' = Inr 6
   \<and> emrtd_compare_check_digit ''l898902c3<<<<<<'' 9 CHR ''6'' = Inr True
   \<and> emrtd_compare_check_digit ''l898902c3<<<<<<'' 9 CHR ''2'' = Inr False
   \<and> mrz_value CHR ''c'' = 12 \<and> mrz_value CHR ''C'' = 12"
proof -
  let ?d = "''l898902c3''"
  have a: "list_all is_mrz_char ?d"
    by (simp add: is_mrz_char_def char_val_def)
  have b: "length ?d < (2::nat) ^ 23" by simp
  from emrtd_calculate_check_digit_numeric [OF a b] obtain v where
    v: "emrtd_calculate_check_digit ?d = Inr v"
       "emrtd_calculate_check_digit (map mrz_upper ?d) = Inr v"
       "length ?d < 90 \<longrightarrow> (\<forall>rest e. emrtd_compare_check_digit (?d @ rest) (length ?d) e
                           = Inr (char_val e = v + 0x30))"
       "\<forall>c. is_lower c \<longrightarrow>
                mrz_value c = char_val c - 87 \<and> 10 \<le> mrz_value c \<and> mrz_value c \<le> 35
                \<and> mrz_value (mrz_upper c) = mrz_value c"
    by blast
  have e: "emrtd_calculate_check_digit ?d = Inr 6" by code_simp
  have v6: "v = 6" using v(1) e by simp
  have u: "map mrz_upper ?d = ''L898902C3''" by code_simp
  have c1: "emrtd_calculate_check_digit ''L898902C3'' = Inr 6"
    using v(2) unfolding u v6 .
  have len: "length ?d < 90" by simp
  have cmp: "emrtd_compare_check_digit (?d @ ''<<<<<<'') (length ?d) e = Inr (char_val e = 54)" for e
    using v(3) len v6 by simp
  have s: "?d @ ''<<<<<<'' = ''l898902c3<<<<<<''" "length ?d = 9" by simp_all
  have cv: "char_val CHR ''6'' = 54" "char_val CHR ''2'' = 50" "char_val CHR ''c'' = 99"
    by (simp_all add: char_val_def)
  have c2: "emrtd_compare_check_digit ''l898902c3<<<<<<'' 9 CHR ''6'' = Inr True"
    using cmp [of "CHR ''6''"] unfolding s cv by simp
  have c3: "emrtd_compare_check_digit ''l898902c3<<<<<<'' 9 CHR ''2'' = Inr False"
    using cmp [of "CHR ''2''"] unfolding s cv by simp
  have l: "is_lower CHR ''c''" by (simp add: is_lower_def char_val_def)
  have uc: "mrz_upper CHR ''c'' = CHR ''C''" by code_simp
  have c4: "mrz_value CHR ''c'' = 12" "mrz_value CHR ''C'' = 12"
    using v(4) l uc cv(3) by auto
  show ?thesis using e c1 c2 c3 c4 by blast
qed









subsection \<open>Retail MAC\<close>

lemma take_padding:
  "1 \<le> k \<Longrightarrow> k \<le> 8 \<Longrightarrow>
   take k [0x80, 0x00, 0x00, 0x00, 0x00, 0x00, 0x00, 0x00 :: byte] = 0x80 # replicate (k - 1) 0"
proof -
  assume "1 \<le> k" "k \<le> 8"
  then have "k = 1 \<or> k = 2 \<or> k = 3 \<or> k = 4 \<or> k = 5 \<or> k = 6 \<or> k = 7 \<or> k = 8" by arith
  then show ?thesis by (auto simp: numeral_eq_Suc)
qed

lemma pad_block_pad2:
  "inputlen \<le> length input \<Longrightarrow> pad_block input inputlen = Inr (iso9797_pad2 (take inputlen input))"
proof -
  assume a: "inputlen \<le> length input"
  have "inputlen mod 8 < 8" by simp
  then have "1 \<le> 8 - inputlen mod 8" "8 - inputlen mod 8 \<le> 8" by arith+
  then have "take (8 - inputlen mod 8) [0x80, 0x00, 0x00, 0x00, 0x00, 0x00, 0x00, 0x00 :: byte]
      = 0x80 # replicate (7 - inputlen mod 8) 0"
    using take_padding [of "8 - inputlen mod 8"] by simp
  then show ?thesis using a by (simp add: pad_block_def iso9797_pad2_def min_def)
qed

lemma length_pad2: "length (iso9797_pad2 msg) = 8 * (length msg div 8 + 1)"
proof -
  have "length (iso9797_pad2 msg) = length msg + 8 - length msg mod 8"
    by (simp add: iso9797_pad2_def)
  also have "\<dots> = 8 * (length msg div 8) + 8"
    by (metis add.commute add_diff_cancel_left' add_diff_assoc2 mod_less_eq_dividend mult_div_mod_eq)
  finally show ?thesis by simp
qed

lemma fold_blocks:
  "fold (\<lambda>i c. F c (take 8 (drop (i * 8) m))) [0..<n] c0 = foldl F c0 (chop8 n m)"
proof (induction n arbitrary: m c0)
  case 0
  show ?case by simp
next
  case (Suc n)
  have "fold (\<lambda>i c. F c (take 8 (drop (i * 8) m))) [0..<Suc n] c0
      = fold (\<lambda>i c. F c (take 8 (drop (i * 8) m))) (0 # map Suc [0..<n]) c0"
    by (simp only: upt_conv_Cons [of 0 "Suc n"] map_Suc_upt)
  also have "\<dots> = fold (\<lambda>i c. F c (take 8 (drop (i * 8) (drop 8 m)))) [0..<n] (F c0 (take 8 m))"
    by (simp add: fold_map comp_def add.commute)
  also have "\<dots> = foldl F (F c0 (take 8 m)) (chop8 n (drop 8 m))" by (rule Suc.IH)
  finally show ?case by simp
qed

lemma chop8_lengths: "8 * n \<le> length m \<Longrightarrow> list_all (\<lambda>b. length b = 8) (chop8 n m)"
  by (induction n arbitrary: m) auto

lemma des_encrypt_ecb_length:
  "block_cipher cr \<Longrightarrow> length k = 8 \<Longrightarrow> length b = 8 \<Longrightarrow> length (des_encrypt_ecb cr k b) = 8"
  by (simp add: block_cipher_def des_encrypt_ecb_def)

lemma des_decrypt_ecb_length:
  "block_cipher cr \<Longrightarrow> length k = 8 \<Longrightarrow> length b = 8 \<Longrightarrow> length (des_decrypt_ecb cr k b) = 8"
  by (simp add: block_cipher_def des_decrypt_ecb_def)

lemma chain_length:
  "block_cipher cr \<Longrightarrow> length k = 8 \<Longrightarrow> length c = 8 \<Longrightarrow> list_all (\<lambda>b. length b = 8) bs \<Longrightarrow>
   length (foldl (\<lambda>c b. des_encrypt_ecb cr k (map2 (XOR) c b)) c bs) = 8"
  by (induction bs arbitrary: c) (simp_all add: des_encrypt_ecb_length)

lemma retail_mac_spec_length:
  assumes "block_cipher cr" "16 \<le> length key"
  shows "length (retail_mac_spec cr key msg) = 8"
proof -
  have k: "length (take 8 key) = 8" "length (take 8 (drop 8 key)) = 8" using assms(2) by simp_all
  have "list_all (\<lambda>b. length b = 8) (blocks8 (iso9797_pad2 msg))"
    unfolding blocks8_def by (rule chop8_lengths) simp
  then have "length (foldl (\<lambda>c b. des_encrypt_ecb cr (take 8 key) (map2 (XOR) c b)) (replicate 8 0x00)
                (blocks8 (iso9797_pad2 msg))) = 8"
    using assms(1) k(1) by (intro chain_length) simp_all
  then show ?thesis
    using assms(1) k
    by (simp add: retail_mac_spec_def Let_def des_encrypt_ecb_length des_decrypt_ecb_length)
qed

lemma take8_enc: "take 8 (des_encrypt_ecb cr k b) = des_encrypt_ecb cr k b"
  by (simp add: des_encrypt_ecb_def)

lemma take8_dec: "take 8 (des_decrypt_ecb cr k b) = des_decrypt_ecb cr k b"
  by (simp add: des_decrypt_ecb_def)

text \<open>
  C4. For a key of 16 bytes and every message of at most 255 bytes, \<^verbatim>\<open>retail_mac\<close> computes
  ISO 9797-1 MAC algorithm 3 as the specification words it: padding method 2, always added;
  CBC chaining of the 8-byte blocks with DES encryption under \<open>K0\<close> from the zero block; DES
  decryption under \<open>K1\<close> and DES encryption under \<open>K0\<close> of the last chaining value. The
  result has 8 bytes when the DES collaborator returns blocks. The bound is the one of the
  code: the padded message is built in the local array \<^verbatim>\<open>message[256]\<close>, which holds the
  padding of at most 255 bytes; it does not hold for every message, as the 256-byte message
  further down shows.
\<close>

theorem retail_mac_is_iso9797_alg3:
  assumes "16 \<le> length key" and "inputlen \<le> length input" and "inputlen \<le> 255"
  shows "retail_mac cr key input inputlen = Inr (retail_mac_spec cr key (take inputlen input))
       \<and> (block_cipher cr \<longrightarrow> length (retail_mac_spec cr key (take inputlen input)) = 8)"
proof -
  let ?msg = "take inputlen input"
  have len: "length (iso9797_pad2 ?msg) = 8 * (inputlen div 8 + 1)"
    using assms(2) by (simp add: length_pad2)
  have "inputlen div 8 \<le> 31" using assms(3) by simp
  then have le: "\<not> 256 < length (iso9797_pad2 ?msg)" unfolding len by simp
  have "retail_mac cr key input inputlen = Inr (retail_mac_spec cr key ?msg)"
    using assms(1) le
    by (simp add: retail_mac_def pad_block_pad2 [OF assms(2)] Let_def retail_mac_spec_def
        take8_enc take8_dec blocks8_def
        fold_blocks [where F = "\<lambda>c b. des_encrypt_ecb cr (take 8 key) (map2 (XOR) c b)"])
  then show ?thesis using retail_mac_spec_length [OF _ assms(1)] by simp
qed


theorem retail_mac_is_iso9797_alg3_witness:
  "retail_mac toy_crypto [1, 2, 3, 4, 5, 6, 7, 8, 9, 10, 11, 12, 13, 14, 15, 16]
       [1, 2, 3, 4, 5, 6, 7, 8, 9] 9 = Inr [4, 126, 1, 4, 7, 10, 13, 16]
   \<and> retail_mac toy_crypto [1, 2, 3, 4, 5, 6, 7, 8, 9, 10, 11, 12, 13, 14, 15, 16]
       [1, 2, 3, 4, 5, 6, 7, 8, 9] 8
       = Inr (retail_mac_spec toy_crypto [1, 2, 3, 4, 5, 6, 7, 8, 9, 10, 11, 12, 13, 14, 15, 16]
                [1, 2, 3, 4, 5, 6, 7, 8])
   \<and> iso9797_pad2 [1, 2, 3, 4, 5, 6, 7, 8]
       = [1, 2, 3, 4, 5, 6, 7, 8, 0x80, 0, 0, 0, 0, 0, 0, 0]
   \<and> length (retail_mac_spec toy_crypto [1, 2, 3, 4, 5, 6, 7, 8, 9, 10, 11, 12, 13, 14, 15, 16]
                [1, 2, 3, 4, 5, 6, 7, 8]) = 8"
proof -
  let ?K = "[1, 2, 3, 4, 5, 6, 7, 8, 9, 10, 11, 12, 13, 14, 15, 16] :: byte list"
  let ?M = "[1, 2, 3, 4, 5, 6, 7, 8, 9] :: byte list"
  have k: "16 \<le> length ?K" by simp
  have m: "9 \<le> length ?M" "8 \<le> length ?M" "(9::nat) \<le> 255" "(8::nat) \<le> 255" by simp_all
  have bc: "block_cipher toy_crypto"
    by (simp add: block_cipher_def toy_crypto_def toy_enc_def toy_dec_def)
  have v: "retail_mac_spec toy_crypto ?K ?M = [4, 126, 1, 4, 7, 10, 13, 16]" by code_simp
  have p: "iso9797_pad2 [1, 2, 3, 4, 5, 6, 7, 8] = [1, 2, 3, 4, 5, 6, 7, 8, 0x80, 0, 0, 0, 0, 0, 0, 0 :: byte]"
    by code_simp
  show ?thesis
    using retail_mac_is_iso9797_alg3 [OF k m(1) m(3), of toy_crypto]
      retail_mac_is_iso9797_alg3 [OF k m(2) m(4), of toy_crypto] bc v p
    by simp
qed

text \<open>
  A message of 256 bytes: its padding has 264 bytes and overruns \<^verbatim>\<open>message[256]\<close>, so the
  code has no result to compare, while the algorithm of the specification has one.
\<close>

theorem retail_mac_long_message_counterexample:
  "retail_mac toy_crypto [1, 2, 3, 4, 5, 6, 7, 8, 9, 10, 11, 12, 13, 14, 15, 16]
     (replicate 256 0x00) 256 = Inl OutOfBounds
   \<and> length (retail_mac_spec toy_crypto [1, 2, 3, 4, 5, 6, 7, 8, 9, 10, 11, 12, 13, 14, 15, 16]
               (replicate 256 0x00)) = 8
   \<and> length (iso9797_pad2 (replicate 256 0x00)) = 264"
proof -
  let ?K = "[1, 2, 3, 4, 5, 6, 7, 8, 9, 10, 11, 12, 13, 14, 15, 16] :: byte list"
  have bc: "block_cipher toy_crypto"
    by (simp add: block_cipher_def toy_crypto_def toy_enc_def toy_dec_def)
  have k: "16 \<le> length ?K" by simp
  have a: "retail_mac toy_crypto ?K (replicate 256 0x00) 256 = Inl OutOfBounds"
    by (simp add: retail_mac_def pad_block_def)
  have b: "length (retail_mac_spec toy_crypto ?K (replicate 256 0x00)) = 8"
    using bc k by (rule retail_mac_spec_length)
  have c: "length (iso9797_pad2 (replicate 256 0x00)) = 264"
    by (simp add: length_pad2)
  show ?thesis using a b c by (intro conjI)
qed

subsection \<open>Key derivation\<close>

lemma upt8: "[0..<8] = [0, 1, 2, 3, 4, 5, 6, 7]"
  by (simp add: upt_rec numeral_eq_Suc)

lemma popcount_bits:
  "popcount b = of_bool (bit b 0) + of_bool (bit b 1) + of_bool (bit b 2) + of_bool (bit b 3)
     + of_bool (bit b 4) + of_bool (bit b 5) + of_bool (bit b 6) + of_bool (bit b 7)"
  unfolding popcount_def upt8 by simp

lemma bit_FE: "bit (0xFE :: byte) n \<longleftrightarrow> 1 \<le> n \<and> n < 8"
proof -
  have "(0xFE :: byte) = NOT 1" by simp
  show ?thesis unfolding \<open>(0xFE :: byte) = NOT 1\<close> by (auto simp: bit_not_iff bit_1_iff)
qed

lemma odd_parity_high: "odd_parity b AND 0xFE = b AND 0xFE"
  by (rule bit_word_eqI) (auto simp: odd_parity_def Let_def bit_and_iff bit_or_iff bit_FE bit_1_iff)

lemma odd_parity_odd: "odd (popcount (odd_parity b))"
proof -
  let ?hi = "b AND 0xFE"
  have hi0: "\<not> bit ?hi 0" by (simp add: bit_and_iff bit_FE)
  have or1: "bit (?hi OR 1) n \<longleftrightarrow> n = 0 \<or> bit ?hi n" for n
    by (auto simp: bit_or_iff bit_1_iff)
  have "popcount (?hi OR 1) = Suc (popcount ?hi)"
    unfolding popcount_bits or1 using hi0 by simp
  then show ?thesis by (simp add: odd_parity_def Let_def)
qed

lemma parity_two_blocks:
  assumes "16 \<le> length key"
  shows "take 16 (fold (\<lambda>i key. take (i * 8) key @ mbedtls_des_key_set_parity (drop (i * 8) key)
                                  @ drop (i * 8 + 8) key) [0..<2] key)
         = map odd_parity (take 16 key)"
proof -
  have u: "[0..<2] = [0, Suc 0]" by (simp add: upt_rec numeral_2_eq_2)
  have t: "take 16 key = take 8 key @ take 8 (drop 8 key)"
    using take_add [of 8 8 key] by simp
  show ?thesis unfolding u t using assms
    by (simp add: mbedtls_des_key_set_parity_def)
qed

lemma parity_length:
  "length (fold (\<lambda>i key. take (i * 8) key @ mbedtls_des_key_set_parity (drop (i * 8) key)
                                  @ drop (i * 8 + 8) key) is key) = length key"
proof (induction "is" arbitrary: key)
  case Nil
  show ?case by simp
next
  case (Cons i "is")
  have "length (take (i * 8) key @ mbedtls_des_key_set_parity (drop (i * 8) key) @ drop (i * 8 + 8) key)
      = length key"
    by (simp add: mbedtls_des_key_set_parity_def)
  then show ?case using Cons.IH by simp
qed

lemma emrtd_deskey_16:
  assumes "sha1_digest cr" "16 \<le> length seed" "length t = 4"
  shows "emrtd_deskey cr seed t 16 = Inr (map odd_parity (take 16 (sha1 cr (take 16 seed @ t))))"
proof -
  have l: "length (sha1 cr x) = 20" for x using assms(1) by (simp add: sha1_digest_def)
  have p: "take 16 (fold (\<lambda>i key. take (i * 8) key @ mbedtls_des_key_set_parity (drop (i * 8) key)
                                  @ drop (i * 8 + 8) key) [0..<2] (sha1 cr x))
         = map odd_parity (take 16 (sha1 cr x))" for x
    by (rule parity_two_blocks) (simp add: l)
  show ?thesis
    using assms(2,3) by (simp add: emrtd_deskey_def Let_def parity_length l p del: fold_simps upt_Suc)
qed


lemma print_i_length: "- 9 \<le> v \<Longrightarrow> v \<le> 9 \<Longrightarrow> 0 \<le> v \<Longrightarrow> length (print_i v) = 1"
  by (simp add: print_i_def)

text \<open>
  C5. For every seed of at least 16 bytes, of which \<^verbatim>\<open>emrtd_deskey\<close> reads the first 16, the
  encryption key is the first 16 bytes of SHA-1(seed || 00 00 00 01) with every byte forced
  to odd parity, and the MAC key is the same with 00 00 00 02; forcing the parity keeps
  the upper seven bits of a byte and leaves it with an odd number of one bits. The keys that
  \<^verbatim>\<open>emrtd_do_bac\<close> derives are a function of the three MRZ strings alone: for MRZ fields of
  at most 21 characters together the derivation returns, and yields two keys of 16 bytes.
\<close>

theorem emrtd_deskey_sha1_parity:
  assumes "sha1_digest cr" and "16 \<le> length seed"
  shows "emrtd_deskey cr seed KENC_type 16
           = Inr (map odd_parity (take 16 (sha1 cr (take 16 seed @ [0x00, 0x00, 0x00, 0x01]))))
       \<and> emrtd_deskey cr seed KMAC_type 16
           = Inr (map odd_parity (take 16 (sha1 cr (take 16 seed @ [0x00, 0x00, 0x00, 0x02]))))
       \<and> (\<forall>b. odd (popcount (odd_parity b)) \<and> odd_parity b AND 0xFE = b AND 0xFE)
       \<and> (\<forall>documentnumber dob expiry.
             list_all is_mrz_char (documentnumber @ dob @ expiry)
             \<and> length documentnumber + length dob + length expiry \<le> 21 \<longrightarrow>
             (\<exists>kenc kmac. emrtd_do_bac_keys cr documentnumber dob expiry = Inr (kenc, kmac)
                \<and> length kenc = 16 \<and> length kmac = 16))"
proof (intro conjI allI impI)
  show "emrtd_deskey cr seed KENC_type 16
           = Inr (map odd_parity (take 16 (sha1 cr (take 16 seed @ [0x00, 0x00, 0x00, 0x01]))))"
    using emrtd_deskey_16 [OF assms, of KENC_type] by (simp add: KENC_type_def)
  show "emrtd_deskey cr seed KMAC_type 16
           = Inr (map odd_parity (take 16 (sha1 cr (take 16 seed @ [0x00, 0x00, 0x00, 0x02]))))"
    using emrtd_deskey_16 [OF assms, of KMAC_type] by (simp add: KMAC_type_def)
  show "odd (popcount (odd_parity b))" for b by (rule odd_parity_odd)
  show "odd_parity b AND 0xFE = b AND 0xFE" for b by (rule odd_parity_high)
next
  fix documentnumber dob expiry
  assume a: "list_all is_mrz_char (documentnumber @ dob @ expiry)
             \<and> length documentnumber + length dob + length expiry \<le> 21"
  have l: "length (sha1 cr x) = 20" for x using assms(1) by (simp add: sha1_digest_def)
  have small: "length documentnumber < 2 ^ 23" "length dob < 2 ^ 23" "length expiry < 2 ^ 23"
    using a by simp_all
  from a check_digit_mrz [OF _ small(1)] obtain c1 where
    c1: "emrtd_calculate_check_digit documentnumber = Inr c1" "0 \<le> c1" "c1 \<le> 9" by auto
  from a check_digit_mrz [OF _ small(2)] obtain c2 where
    c2: "emrtd_calculate_check_digit dob = Inr c2" "0 \<le> c2" "c2 \<le> 9" by auto
  from a check_digit_mrz [OF _ small(3)] obtain c3 where
    c3: "emrtd_calculate_check_digit expiry = Inr c3" "0 \<le> c3" "c3 \<le> 9" by auto
  have p: "length (print_i c1) = 1" "length (print_i c2) = 1" "length (print_i c3) = 1"
    using c1 c2 c3 by (simp_all add: print_i_def)
  have k: "\<exists>kenc. emrtd_deskey cr (sha1 cr x) KENC_type 16 = Inr kenc \<and> length kenc = 16"
          "\<exists>kmac. emrtd_deskey cr (sha1 cr x) KMAC_type 16 = Inr kmac \<and> length kmac = 16" for x
    using emrtd_deskey_16 [OF assms(1), of "sha1 cr x"]
    by (simp_all add: KENC_type_def KMAC_type_def l)
  show "\<exists>kenc kmac. emrtd_do_bac_keys cr documentnumber dob expiry = Inr (kenc, kmac)
                \<and> length kenc = 16 \<and> length kmac = 16"
  proof -
    let ?x = "map of_char documentnumber @ map of_char (print_i c1) @ map of_char dob
              @ map of_char (print_i c2) @ map of_char expiry @ map of_char (print_i c3)"
    from k [of ?x] obtain kenc kmac where
      "emrtd_deskey cr (sha1 cr ?x) KENC_type 16 = Inr kenc" "length kenc = 16"
      "emrtd_deskey cr (sha1 cr ?x) KMAC_type 16 = Inr kmac" "length kmac = 16"
      by blast
    then show ?thesis
      using a c1(1) c2(1) c3(1) p by (simp add: emrtd_do_bac_keys_def Let_def l)
  qed
qed


theorem emrtd_deskey_sha1_parity_witness:
  "emrtd_deskey toy_crypto [1, 2, 3, 4, 5, 6, 7, 8, 9, 10, 11, 12, 13, 14, 15, 16] KENC_type 16
     = Inr [137, 138, 138, 140, 140, 143, 143, 145, 145, 146, 146, 148, 148, 151, 151, 152]
   \<and> emrtd_deskey toy_crypto [1, 2, 3, 4, 5, 6, 7, 8, 9, 10, 11, 12, 13, 14, 15, 16] KMAC_type 16
     = Inr [138, 138, 140, 140, 143, 143, 145, 145, 146, 146, 148, 148, 151, 151, 152, 152]
   \<and> odd (popcount (odd_parity 0x88)) \<and> odd_parity 0x88 = 0x89
   \<and> emrtd_do_bac_keys toy_crypto ''L898902C<'' ''690806'' ''940623''
     = Inr ([88, 91, 91, 93, 93, 94, 94, 97, 97, 98, 98, 100, 100, 103, 103, 104],
            [91, 91, 93, 93, 94, 94, 97, 97, 98, 98, 100, 100, 103, 103, 104, 104])"
proof -
  let ?S = "[1, 2, 3, 4, 5, 6, 7, 8, 9, 10, 11, 12, 13, 14, 15, 16] :: byte list"
  have d: "sha1_digest toy_crypto"
    by (simp add: sha1_digest_def toy_crypto_def toy_sha1_def)
  have s: "16 \<le> length ?S" by simp
  note t = emrtd_deskey_sha1_parity [OF d s]
  have e1: "map odd_parity (take 16 (sha1 toy_crypto (take 16 ?S @ [0x00, 0x00, 0x00, 0x01])))
      = [137, 138, 138, 140, 140, 143, 143, 145, 145, 146, 146, 148, 148, 151, 151, 152]"
    by code_simp
  have e2: "map odd_parity (take 16 (sha1 toy_crypto (take 16 ?S @ [0x00, 0x00, 0x00, 0x02])))
      = [138, 138, 140, 140, 143, 143, 145, 145, 146, 146, 148, 148, 151, 151, 152, 152]"
    by code_simp
  have e3: "odd_parity 0x88 = 0x89" by code_simp
  have m: "list_all is_mrz_char (''L898902C<'' @ ''690806'' @ ''940623'')
           \<and> length ''L898902C<'' + length ''690806'' + length ''940623'' \<le> 21"
    by (simp add: is_mrz_char_def char_val_def)
  from t m obtain kenc kmac where
    "emrtd_do_bac_keys toy_crypto ''L898902C<'' ''690806'' ''940623'' = Inr (kenc, kmac)"
    by blast
  moreover have "emrtd_do_bac_keys toy_crypto ''L898902C<'' ''690806'' ''940623''
     = Inr ([88, 91, 91, 93, 93, 94, 94, 97, 97, 98, 98, 100, 100, 103, 103, 104],
            [91, 91, 93, 93, 94, 94, 97, 97, 98, 98, 100, 100, 103, 103, 104, 104])"
    by code_simp
  moreover have "odd (popcount (odd_parity 0x88))" using t by blast
  moreover have "emrtd_deskey toy_crypto ?S KENC_type 16
     = Inr [137, 138, 138, 140, 140, 143, 143, 145, 145, 146, 146, 148, 148, 151, 151, 152]"
    using t unfolding e1 by blast
  moreover have "emrtd_deskey toy_crypto ?S KMAC_type 16
     = Inr [138, 138, 140, 140, 143, 143, 145, 145, 146, 146, 148, 148, 151, 151, 152, 152]"
    using t unfolding e2 by blast
  ultimately show ?thesis using e3 by blast
qed

subsection \<open>ASN.1 length decoding\<close>

lemma bit_small: "x < 2 ^ n \<Longrightarrow> n \<le> m \<Longrightarrow> \<not> bit (x::nat) m"
proof -
  assume a: "x < 2 ^ n" "n \<le> m"
  have "(2::nat) ^ n \<le> 2 ^ m" using a(2) by (simp add: power_increasing)
  with a(1) have "x < 2 ^ m" by linarith
  then have "x div 2 ^ m = 0" by simp
  then show ?thesis by (simp add: bit_iff_odd)
qed

lemma or_low: "x < 2 ^ n \<Longrightarrow> push_bit n (a::nat) OR x = push_bit n a + x"
  by (rule disjunctive_add [symmetric]) (auto simp: bit_push_bit_iff dest: bit_small)

lemma or_bytes2: "push_bit 8 (unat (b1::byte)) OR unat (b2::byte) = unat b1 * 256 + unat b2"
proof -
  have "unat b2 < 2 ^ 8" using unsigned_less [of b2] by simp
  then have "push_bit 8 (unat b1) OR unat b2 = push_bit 8 (unat b1) + unat b2" by (rule or_low)
  then show ?thesis by (simp add: push_bit_eq_mult)
qed

lemma or_bytes3:
  "(push_bit 16 (unat (b1::byte)) OR push_bit 8 (unat (b2::byte))) OR unat (b3::byte)
     = (unat b1 * 256 + unat b2) * 256 + unat b3"
proof -
  have b3: "unat b3 < 2 ^ 8"
    using unsigned_less [of b3] by simp
  have "push_bit 16 (unat b1) OR push_bit 8 (unat b2) = push_bit 8 (push_bit 8 (unat b1) OR unat b2)"
    by (simp add: push_bit_or push_bit_push_bit)
  also have "\<dots> = push_bit 8 (unat b1 * 256 + unat b2)" by (simp only: or_bytes2)
  finally have "(push_bit 16 (unat b1) OR push_bit 8 (unat b2)) OR unat b3
      = push_bit 8 (unat b1 * 256 + unat b2) OR unat b3" by simp
  also have "\<dots> = push_bit 8 (unat b1 * 256 + unat b2) + unat b3" using b3 by (rule or_low)
  finally show ?thesis by (simp add: push_bit_eq_mult)
qed









subsection \<open>Lookup by tag\<close>

lemma peek_append: "i < length xs \<Longrightarrow> peek (pre @ xs @ rest) (length pre + i) = Inr (xs ! i)"
  by (simp add: peek_def nth_append)

lemma peek_front: "i < length xs \<Longrightarrow> peek (xs @ rest) i = Inr (xs ! i)"
  by (simp add: peek_def nth_append)

lemma peek_at: "peek (xs @ y # ys) (length xs) = Inr y"
  by (simp add: peek_def)

lemma peek_at1: "peek (xs @ y # z # ys) (Suc (length xs)) = Inr z"
  by (simp add: peek_def nth_append)

lemma peek_at2: "peek (xs @ y # z # w # ys) (Suc (Suc (length xs))) = Inr w"
  by (simp add: peek_def nth_append)

lemma peek_at3: "peek (xs @ y # z # w # u # ys) (Suc (Suc (Suc (length xs)))) = Inr u"
  by (simp add: peek_def nth_append)

lemma length_field_cases:
  assumes "length_field l n"
  obtains b where "l = [b]" "b \<le> 0x7F" "n = unat b"
  | b1 where "l = [0x81, b1]" "n = be_nat [b1]"
  | b1 b2 where "l = [0x82, b1, b2]" "n = be_nat [b1, b2]"
  | b1 b2 b3 where "l = [0x83, b1, b2, b3]" "n = be_nat [b1, b2, b3]"
  using assms unfolding length_field_def
  by (auto split: list.splits)

lemma data_length_on_element:
  assumes "length_field l n"
  shows "emrtd_get_asn1_data_length (t @ l @ rest) m (length t) = Inr n"
  using assms
proof (cases rule: length_field_cases)
  case (1 b)
  then show ?thesis by (simp add: emrtd_get_asn1_data_length_def peek_at)
next
  case (2 b1)
  then show ?thesis
    by (simp add: emrtd_get_asn1_data_length_def peek_at peek_at1 be_nat_def)
next
  case (3 b1 b2)
  have e: "length t + 2 = Suc (Suc (length t))" by simp
  from 3 show ?thesis
    by (simp add: emrtd_get_asn1_data_length_def peek_at peek_at1 peek_at2 e be_nat_def or_bytes2)
next
  case (4 b1 b2 b3)
  have e: "length t + 2 = Suc (Suc (length t))" "length t + 3 = Suc (Suc (Suc (length t)))" by simp_all
  from 4 show ?thesis
    by (simp add: emrtd_get_asn1_data_length_def peek_at peek_at1 peek_at2 peek_at3 e be_nat_def or_bytes3)
qed

lemma field_length_on_element:
  assumes "length_field l n"
  shows "emrtd_get_asn1_field_length (t @ l @ rest) m (length t) = Inr (length l)"
  using assms
proof (cases rule: length_field_cases)
  case (1 b)
  then have "b \<le> 0x80" by (simp add: word_le_nat_alt)
  with 1 show ?thesis by (simp add: emrtd_get_asn1_field_length_def peek_at)
qed (simp_all add: emrtd_get_asn1_field_length_def peek_at)

lemma length_field_nonempty: "length_field l n \<Longrightarrow> l \<noteq> []"
  by (auto simp: length_field_def)

lemma body_on_element:
  assumes ok: "element_ok (t, l, v)" and big: "length v < datainlen"
  shows "emrtd_lds_get_data_by_tag_body (pre @ encode (t, l, v) @ rest)
           datainlen tag1 tag2 twobytetag skiptagcount (length pre) skipcounter
         = (if tag_matches tag1 tag2 twobytetag (t, l, v) then
              if skipcounter < skiptagcount
              then Continue (length (pre @ encode (t, l, v))) (skipcounter + 1)
              else Return (Inr v)
            else Continue (length (pre @ encode (t, l, v))) skipcounter)"
proof -
  from ok have t: "t \<noteq> []" "length t = emrtd_lds_determine_tag_length (hd t)"
    and l: "length_field l (length v)"
    by (simp_all add: element_ok_def tag_ok_def)
  obtain t0 ts where t0: "t = t0 # ts" using t(1) by (cases t) auto
  obtain l0 ls where l0: "l = l0 # ls" using length_field_nonempty [OF l] by (cases l) auto
  let ?d = "pre @ t @ l @ v @ rest"
  have dr: "drop (length pre) ?d = t @ l @ v @ rest" by simp
  have p0: "peek ?d (length pre) = Inr t0" by (simp add: t0 peek_at)
  have idlen: "emrtd_lds_determine_tag_length t0 = length t" using t(2) t0 by simp
  have "Suc 0 < length (t @ l @ v)" using t0 l0 by simp
  then have p1: "peek ?d (Suc (length pre)) = Inr ((t @ l @ v) ! Suc 0)"
    using peek_append [of "Suc 0" "t @ l @ v" pre rest] by simp
  have e0: "(t @ l @ v) ! 0 = t0" using t0 by simp
  have sl: "read_bytes ?d (length pre + length t + length l) (length v) = Inr v"
    by (simp add: read_bytes_def)
  show ?thesis
    by (simp add: emrtd_lds_get_data_by_tag_body_def encode_def p0 Let_def idlen
        data_length_on_element [OF l] field_length_on_element [OF l]
        p1 tag_matches_def e0 sl big)
qed


lemma find_element_Nil: "find_element tag1 tag2 twobytetag k [] = Inl Failed"
  by (simp add: find_element_def)

lemma find_element_Cons:
  "find_element tag1 tag2 twobytetag k (e # es)
     = (if tag_matches tag1 tag2 twobytetag e then
          if k = 0 then Inr (element_value e) else find_element tag1 tag2 twobytetag (k - 1) es
        else find_element tag1 tag2 twobytetag k es)"
  by (cases k) (simp_all add: find_element_def)

lemma encode_nonempty: "element_ok e \<Longrightarrow> encode e \<noteq> []"
  by (cases e) (auto simp: element_ok_def encode_def tag_ok_def)

lemma value_shorter: "element_ok (t, l, v) \<Longrightarrow> length v < length (encode (t, l, v))"
  by (auto simp: element_ok_def encode_def tag_ok_def)

lemma loop_on_elements:
  assumes "list_all element_ok es" and "skipcounter \<le> skiptagcount"
  shows "emrtd_lds_get_data_by_tag_loop (pre @ concat (map encode es) @ junk)
           (length (pre @ concat (map encode es))) tag1 tag2 twobytetag skiptagcount
           (length pre) skipcounter
         = find_element tag1 tag2 twobytetag (skiptagcount - skipcounter) es"
  using assms
proof (induction es arbitrary: pre skipcounter)
  case Nil
  show ?case
    by (subst emrtd_lds_get_data_by_tag_loop.simps) (simp add: find_element_Nil)
next
  case (Cons e es)
  obtain t l v where e: "e = (t, l, v)" by (cases e) auto
  have ok: "element_ok (t, l, v)" and oks: "list_all element_ok es" using Cons.prems(1) e by simp_all
  let ?rest = "concat (map encode es) @ junk"
  let ?n = "length (pre @ concat (map encode (e # es)))"
  have ne: "encode e \<noteq> []" using ok e by (simp add: encode_nonempty)
  have lt: "length pre < ?n" using ne by simp
  have big: "length v < ?n" using value_shorter [OF ok] by (simp add: e)
  have d: "pre @ concat (map encode (e # es)) @ junk = pre @ encode (t, l, v) @ ?rest"
    by (simp add: e)
  have n: "?n = length ((pre @ encode e) @ concat (map encode es))" by simp
  have d': "pre @ encode (t, l, v) @ ?rest = (pre @ encode e) @ concat (map encode es) @ junk"
    by (simp add: e)
  note body = body_on_element [OF ok big, of pre ?rest tag1 tag2 twobytetag skiptagcount skipcounter]
  show ?case
  proof (cases "tag_matches tag1 tag2 twobytetag e")
    case False
    have "emrtd_lds_get_data_by_tag_loop (pre @ concat (map encode (e # es)) @ junk) ?n
            tag1 tag2 twobytetag skiptagcount (length pre) skipcounter
        = emrtd_lds_get_data_by_tag_loop ((pre @ encode e) @ concat (map encode es) @ junk)
            (length ((pre @ encode e) @ concat (map encode es)))
            tag1 tag2 twobytetag skiptagcount (length (pre @ encode e)) skipcounter"
      apply (subst emrtd_lds_get_data_by_tag_loop.simps)
      apply (simp only: lt if_True d body)
      using False by (simp add: e)
    also have "\<dots> = find_element tag1 tag2 twobytetag (skiptagcount - skipcounter) es"
      by (rule Cons.IH [OF oks Cons.prems(2)])
    finally show ?thesis using False by (simp add: find_element_Cons)
  next
    case True
    show ?thesis
    proof (cases "skipcounter < skiptagcount")
      case less: True
      have "emrtd_lds_get_data_by_tag_loop (pre @ concat (map encode (e # es)) @ junk) ?n
            tag1 tag2 twobytetag skiptagcount (length pre) skipcounter
        = emrtd_lds_get_data_by_tag_loop ((pre @ encode e) @ concat (map encode es) @ junk)
            (length ((pre @ encode e) @ concat (map encode es)))
            tag1 tag2 twobytetag skiptagcount (length (pre @ encode e)) (skipcounter + 1)"
        apply (subst emrtd_lds_get_data_by_tag_loop.simps)
        apply (simp only: lt if_True d body)
        using True less by (simp add: e)
      also have "\<dots> = find_element tag1 tag2 twobytetag (skiptagcount - (skipcounter + 1)) es"
        using less by (intro Cons.IH [OF oks]) simp
      finally show ?thesis using True less by (simp add: find_element_Cons)
    next
      case False
      then have z: "skiptagcount - skipcounter = 0" by simp
      have "emrtd_lds_get_data_by_tag_loop (pre @ concat (map encode (e # es)) @ junk) ?n
            tag1 tag2 twobytetag skiptagcount (length pre) skipcounter = Inr v"
        apply (subst emrtd_lds_get_data_by_tag_loop.simps)
        apply (simp only: lt if_True d body)
        using True False by (simp add: e)
      then show ?thesis using True z by (simp add: find_element_Cons e element_value_def)
    qed
  qed
qed


lemma lookup_plain:
  assumes "list_all element_ok es"
  shows "emrtd_lds_get_data_by_tag (concat (map encode es) @ junk) (length (concat (map encode es)))
           tag1 tag2 twobytetag False skipCount
         = find_element tag1 tag2 twobytetag skipCount es"
  using loop_on_elements [OF assms, of 0 skipCount "[]" junk tag1 tag2 twobytetag]
  by (simp add: emrtd_lds_get_data_by_tag_def)

lemma lookup_entered:
  assumes "list_all element_ok es" and "tag_ok t" and "length_field l n"
  shows "emrtd_lds_get_data_by_tag (t @ l @ concat (map encode es) @ junk)
           (length (t @ l @ concat (map encode es))) tag1 tag2 twobytetag True skipCount
         = find_element tag1 tag2 twobytetag skipCount es"
proof -
  obtain t0 ts where t0: "t = t0 # ts" using assms(2) by (cases t) (auto simp: tag_ok_def)
  have id: "emrtd_lds_determine_tag_length t0 = length t" using assms(2) t0 by (simp add: tag_ok_def)
  have p: "peek (t @ l @ concat (map encode es) @ junk) 0 = Inr t0" by (simp add: t0 peek_def)
  have f: "emrtd_get_asn1_field_length (t @ l @ concat (map encode es) @ junk) m (length t)
           = Inr (length l)" for m
    by (rule field_length_on_element [OF assms(3)])
  show ?thesis
    using loop_on_elements [OF assms(1), of 0 skipCount "t @ l" junk tag1 tag2 twobytetag]
    by (simp add: emrtd_lds_get_data_by_tag_def p id f Let_def)
qed

lemma find_element_none:
  "list_all (\<lambda>e. \<not> tag_matches tag1 tag2 twobytetag e) es \<Longrightarrow>
   find_element tag1 tag2 twobytetag k es = Inl Failed"
  by (induction es) (simp_all add: find_element_Nil find_element_Cons)

text \<open>
  C7. On a buffer made of well-formed top-level elements (whatever lies in memory behind
  \<open>datainlen\<close>), \<^verbatim>\<open>emrtd_lds_get_data_by_tag\<close> returns the value of the match number
  \<open>skipCount + 1\<close> among the elements whose tag matches, and \<^verbatim>\<open>false\<close> when there are
  fewer matches. With \<^verbatim>\<open>entertoptag\<close> it first steps over one outer tag and length field
  and then does the same on what follows; in both cases the values of the elements are
  never entered. In particular, with two 0x30 elements and \<open>skipCount = 1\<close> the second value
  is returned, and a tag that no element carries is not found.
\<close>

theorem emrtd_lds_get_data_by_tag_finds:
  assumes "list_all element_ok es"
  shows "emrtd_lds_get_data_by_tag (concat (map encode es) @ junk) (length (concat (map encode es)))
           tag1 tag2 twobytetag False skipCount
         = find_element tag1 tag2 twobytetag skipCount es
       \<and> (tag_ok t \<and> length_field l n \<longrightarrow>
            emrtd_lds_get_data_by_tag (t @ l @ concat (map encode es) @ junk)
              (length (t @ l @ concat (map encode es))) tag1 tag2 twobytetag True skipCount
            = find_element tag1 tag2 twobytetag skipCount es)
       \<and> (\<forall>e1 e2. es = [e1, e2] \<and> tag_matches 0x30 tag2 False e1 \<and> tag_matches 0x30 tag2 False e2 \<longrightarrow>
            emrtd_lds_get_data_by_tag (encode e1 @ encode e2 @ junk) (length (encode e1 @ encode e2))
              0x30 tag2 False False 1
            = Inr (element_value e2))
       \<and> (list_all (\<lambda>e. \<not> tag_matches tag1 tag2 twobytetag e) es \<longrightarrow>
            emrtd_lds_get_data_by_tag (concat (map encode es) @ junk) (length (concat (map encode es)))
              tag1 tag2 twobytetag False skipCount
            = Inl Failed)"
proof (intro conjI impI allI)
  show "emrtd_lds_get_data_by_tag (concat (map encode es) @ junk) (length (concat (map encode es)))
           tag1 tag2 twobytetag False skipCount
         = find_element tag1 tag2 twobytetag skipCount es"
    by (rule lookup_plain [OF assms])
  show "emrtd_lds_get_data_by_tag (t @ l @ concat (map encode es) @ junk)
              (length (t @ l @ concat (map encode es))) tag1 tag2 twobytetag True skipCount
            = find_element tag1 tag2 twobytetag skipCount es"
    if "tag_ok t \<and> length_field l n"
    using that lookup_entered [OF assms] by blast
  show "emrtd_lds_get_data_by_tag (encode e1 @ encode e2 @ junk) (length (encode e1 @ encode e2))
              0x30 tag2 False False 1
            = Inr (element_value e2)"
    if "es = [e1, e2] \<and> tag_matches 0x30 tag2 False e1 \<and> tag_matches 0x30 tag2 False e2" for e1 e2
    using that lookup_plain [OF assms, of junk "0x30" tag2 False 1]
    by (simp add: find_element_Cons)
  show "emrtd_lds_get_data_by_tag (concat (map encode es) @ junk) (length (concat (map encode es)))
              tag1 tag2 twobytetag False skipCount
            = Inl Failed"
    if "list_all (\<lambda>e. \<not> tag_matches tag1 tag2 twobytetag e) es"
    using that lookup_plain [OF assms] by (simp add: find_element_none)
qed

theorem emrtd_lds_get_data_by_tag_finds_witness:
  "emrtd_lds_get_data_by_tag [0x30, 0x02, 0xAA, 0xBB, 0x30, 0x01, 0xCC] 7 0x30 0 False False 1
     = Inr [0xCC]
   \<and> emrtd_lds_get_data_by_tag [0x30, 0x02, 0xAA, 0xBB, 0x30, 0x01, 0xCC] 7 0x30 0 False False 0
     = Inr [0xAA, 0xBB]
   \<and> emrtd_lds_get_data_by_tag [0x30, 0x02, 0xAA, 0xBB, 0x30, 0x01, 0xCC] 7 0x04 0 False False 0
     = Inl Failed
   \<and> emrtd_lds_get_data_by_tag [0x60, 0x07, 0x30, 0x02, 0xAA, 0xBB, 0x30, 0x01, 0xCC] 9 0x30 0 False True 1
     = Inr [0xCC]"
proof -
  define e1 :: element where "e1 = ([0x30], [0x02], [0xAA, 0xBB])"
  define e2 :: element where "e2 = ([0x30], [0x01], [0xCC])"
  have ok: "list_all element_ok [e1, e2]"
    by (simp add: e1_def e2_def element_ok_def tag_ok_def length_field_def
        emrtd_lds_determine_tag_length_def be_nat_def)
  have top: "tag_ok [0x60] \<and> length_field [0x07] 7"
    by (simp add: tag_ok_def length_field_def emrtd_lds_determine_tag_length_def)
  have m: "tag_matches 0x30 0 False e1" "tag_matches 0x30 0 False e2"
    by (simp_all add: e1_def e2_def tag_matches_def encode_def)
  have m': "list_all (\<lambda>e. \<not> tag_matches 0x04 0 False e) [e1, e2]"
    by (simp add: e1_def e2_def tag_matches_def encode_def)
  have enc: "concat (map encode [e1, e2]) @ [] = [0x30, 0x02, 0xAA, 0xBB, 0x30, 0x01, 0xCC]"
    by (simp add: e1_def e2_def encode_def)
  have enc2: "[0x60] @ [0x07] @ concat (map encode [e1, e2]) @ []
      = [0x60, 0x07, 0x30, 0x02, 0xAA, 0xBB, 0x30, 0x01, 0xCC]"
    by (simp add: e1_def e2_def encode_def)
  have len: "length (concat (map encode [e1, e2])) = 7"
    by (simp add: e1_def e2_def encode_def)
  have len2: "length ([0x60] @ [0x07] @ concat (map encode [e1, e2])) = 9"
    by (simp add: e1_def e2_def encode_def)
  have f: "find_element 0x30 0 False 1 [e1, e2] = Inr [0xCC]"
    "find_element 0x30 0 False 0 [e1, e2] = Inr [0xAA, 0xBB]"
    using m by (simp_all add: find_element_def element_value_def e1_def e2_def)
  note t = emrtd_lds_get_data_by_tag_finds [OF ok, of "[]"]
  have a: "emrtd_lds_get_data_by_tag [0x30, 0x02, 0xAA, 0xBB, 0x30, 0x01, 0xCC] 7 0x30 0 False False 1
     = Inr [0xCC]"
    using t [of "0x30" 0 False 1, THEN conjunct1] by (simp only: enc len f)
  have b: "emrtd_lds_get_data_by_tag [0x30, 0x02, 0xAA, 0xBB, 0x30, 0x01, 0xCC] 7 0x30 0 False False 0
     = Inr [0xAA, 0xBB]"
    using t [of "0x30" 0 False 0, THEN conjunct1] by (simp only: enc len f)
  have c: "emrtd_lds_get_data_by_tag [0x30, 0x02, 0xAA, 0xBB, 0x30, 0x01, 0xCC] 7 0x04 0 False False 0
     = Inl Failed"
    using t [of "0x04" 0 False 0, THEN conjunct2, THEN conjunct2, THEN conjunct2, rule_format, OF m']
    by (simp only: enc len)
  have d: "emrtd_lds_get_data_by_tag [0x60, 0x07, 0x30, 0x02, 0xAA, 0xBB, 0x30, 0x01, 0xCC] 9 0x30 0 False True 1
     = Inr [0xCC]"
    using t [of "0x30" 0 False 1 "[0x60]" "[0x07]" 7, THEN conjunct2, THEN conjunct1, rule_format, OF top]
    by (simp only: enc2 len2 f)
  show ?thesis using a b c d by (intro conjI)
qed

subsection \<open>The BAC handshake\<close>

lemma length_zero_init: "length (zero_init n data) = n"
  by (simp add: zero_init_def)

lemma xor_zeros: "length x = n \<Longrightarrow> map2 (XOR) (replicate n (0::byte)) x = x"
proof (induction x arbitrary: n)
  case Nil
  then show ?case by simp
next
  case (Cons a x)
  then obtain m where "n = Suc m" by (cases n) auto
  with Cons show ?case by simp
qed

lemma do_bac_after_auth:
  assumes keys: "emrtd_do_bac_keys cr documentnumber dob expiry = Inr (kenc, kmac)"
    and chal: "emrtd_get_challenge xc 8 use_14b chip = (True, Some challenge, chip1)"
    and short: "length challenge \<le> 8"
    and enc: "des3_encrypt_cbc cr (replicate 8 0x00) kenc (rng 8 @ zero_init 8 challenge @ rng 16) 32
               = (e_ifd, iv)"
    and mac: "retail_mac cr kmac (zero_init 32 e_ifd) 32 = Inr m_ifd"
    and auth: "emrtd_external_authenticate xc (zero_init 32 e_ifd @ zero_init 8 m_ifd) 40 use_14b chip1
               = (True, Some response, chip2)"
    and dec: "dec_output = zero_init 32 (fst (des3_decrypt_cbc cr iv kenc (zero_init 32 response) 32))"
  shows "emrtd_do_bac cr xc documentnumber dob expiry use_14b chip =
          (if rng 8 \<noteq> take 8 (drop 8 dec_output) then (Inl Failed, chip2)
           else case (emrtd_deskey cr (map2 (XOR) (rng 16) (take 16 (drop 16 dec_output))) KENC_type 16,
                      emrtd_deskey cr (map2 (XOR) (rng 16) (take 16 (drop 16 dec_output))) KMAC_type 16) of
                  (Inr ks_enc, Inr ks_mac) \<Rightarrow>
                    (Inr (take 4 (drop 4 (zero_init 8 challenge)) @ take 4 (drop 4 (rng 8)),
                          ks_enc, ks_mac), chip2)
                | _ \<Rightarrow> (Inl OutOfBounds, chip2))"
  using short
  by (simp add: emrtd_do_bac_def Let_def keys chal enc mac auth dec [symmetric] split: sum.split)


lemma scripted_exchange:
  "n < length script \<Longrightarrow> script ! n = data @ [0x90, 0x00] \<Longrightarrow> length data < 254 \<Longrightarrow>
   emrtd_exchange_commands (scripted_chip script) cmd a k use_14b n = (True, Some data, Suc n)"
  by (simp add: emrtd_exchange_commands_def scripted_chip_def get_sw_def Let_def nth_append)

text \<open>
  C2, as the code has it. Once GET CHALLENGE and EXTERNAL AUTHENTICATE have succeeded, the
  32 bytes of the response are decrypted, starting from the initialisation vector left by
  the encryption of \<open>S\<close>. The handshake fails, without session keys, exactly when the bytes
  8 to 15 of the decrypted block differ from RND.IFD; the first 8 bytes are not examined.
  Otherwise the bytes 16 to 31 are K.ICC: RND.IFD and K.IFD being zero, the session keys are
  derived from K.ICC itself, and the counter is made of the last four bytes of RND.IC and of
  RND.IFD.
\<close>

theorem emrtd_do_bac_checks_second_block:
  assumes keys: "emrtd_do_bac_keys cr documentnumber dob expiry = Inr (kenc, kmac)"
    and chal: "emrtd_get_challenge xc 8 use_14b chip = (True, Some challenge, chip1)"
    and short: "length challenge \<le> 8"
    and enc: "des3_encrypt_cbc cr (replicate 8 0x00) kenc (rng 8 @ zero_init 8 challenge @ rng 16) 32
               = (e_ifd, iv)"
    and mac: "retail_mac cr kmac (zero_init 32 e_ifd) 32 = Inr m_ifd"
    and auth: "emrtd_external_authenticate xc (zero_init 32 e_ifd @ zero_init 8 m_ifd) 40 use_14b chip1
               = (True, Some response, chip2)"
    and dec: "dec_output = zero_init 32 (fst (des3_decrypt_cbc cr iv kenc (zero_init 32 response) 32))"
    and sha: "sha1_digest cr"
  shows "(take 8 (drop 8 dec_output) \<noteq> rng 8 \<longrightarrow>
            emrtd_do_bac cr xc documentnumber dob expiry use_14b chip = (Inl Failed, chip2))
       \<and> (take 8 (drop 8 dec_output) = rng 8 \<longrightarrow>
            emrtd_do_bac cr xc documentnumber dob expiry use_14b chip
            = (Inr (take 4 (drop 4 (zero_init 8 challenge)) @ take 4 (drop 4 (rng 8)),
                    map odd_parity (take 16 (sha1 cr (take 16 (drop 16 dec_output) @ [0x00, 0x00, 0x00, 0x01]))),
                    map odd_parity (take 16 (sha1 cr (take 16 (drop 16 dec_output) @ [0x00, 0x00, 0x00, 0x02])))),
               chip2))"
proof -
  let ?k_icc = "take 16 (drop 16 dec_output)"
  have l: "length ?k_icc = 16" by (simp add: dec length_zero_init)
  have x: "map2 (XOR) (rng 16) ?k_icc = ?k_icc" unfolding rng_def by (rule xor_zeros [OF l])
  have k: "emrtd_deskey cr ?k_icc KENC_type 16
             = Inr (map odd_parity (take 16 (sha1 cr (?k_icc @ [0x00, 0x00, 0x00, 0x01]))))"
          "emrtd_deskey cr ?k_icc KMAC_type 16
             = Inr (map odd_parity (take 16 (sha1 cr (?k_icc @ [0x00, 0x00, 0x00, 0x02]))))"
    using emrtd_deskey_16 [OF sha, of ?k_icc] l by (simp_all add: KENC_type_def KMAC_type_def)
  show ?thesis
    unfolding do_bac_after_auth [OF keys chal short enc mac auth dec] x k
    by auto
qed



theorem emrtd_do_bac_checks_second_block_witness:
  "emrtd_do_bac toy_crypto
        (scripted_chip
           [[1, 2, 3, 4, 5, 6, 7, 8, 0x90, 0x00],
            [79, 84, 84, 86, 86, 85, 85, 90, 151, 167, 167, 167, 167, 167, 167, 183,
             229, 249, 248, 249, 248, 246, 245, 25, 59, 71, 71, 75, 75, 77, 79, 99,
             0, 0, 0, 0, 0, 0, 0, 0, 0x90, 0x00]])
        ''L898902C<'' ''690806'' ''940623'' False 0
     = (Inl Failed, 2)
   \<and> emrtd_do_bac toy_crypto
        (scripted_chip
           [[1, 2, 3, 4, 5, 6, 7, 8, 0x90, 0x00],
            [88, 93, 93, 95, 95, 94, 94, 99, 167, 177, 177, 181, 181, 179, 179, 189,
             245, 7, 6, 7, 6, 10, 9, 15, 75, 97, 97, 97, 97, 89, 91, 121,
             0, 0, 0, 0, 0, 0, 0, 0, 0x90, 0x00]])
        ''L898902C<'' ''690806'' ''940623'' False 0
     = (Inr ([5, 6, 7, 8, 0, 0, 0, 0],
             [137, 138, 138, 140, 140, 143, 143, 145, 145, 146, 146, 148, 148, 151, 151, 152],
             [138, 138, 140, 140, 143, 143, 145, 145, 146, 146, 148, 148, 151, 151, 152, 152]),
        2)"
proof -
  let ?kenc = "[88, 91, 91, 93, 93, 94, 94, 97, 97, 98, 98, 100, 100, 103, 103, 104] :: byte list"
  let ?kmac = "[91, 91, 93, 93, 94, 94, 97, 97, 98, 98, 100, 100, 103, 103, 104, 104] :: byte list"
  let ?respA = "[88, 93, 93, 95, 95, 94, 94, 99, 167, 177, 177, 181, 181, 179, 179, 189,
                245, 7, 6, 7, 6, 10, 9, 15, 75, 97, 97, 97, 97, 89, 91, 121,
                0, 0, 0, 0, 0, 0, 0, 0] :: byte list"
  let ?respB = "[79, 84, 84, 86, 86, 85, 85, 90, 151, 167, 167, 167, 167, 167, 167, 183,
             229, 249, 248, 249, 248, 246, 245, 25, 59, 71, 71, 75, 75, 77, 79, 99,
             0, 0, 0, 0, 0, 0, 0, 0] :: byte list"
  let ?scriptA = "[[1, 2, 3, 4, 5, 6, 7, 8, 0x90, 0x00],
            [88, 93, 93, 95, 95, 94, 94, 99, 167, 177, 177, 181, 181, 179, 179, 189,
             245, 7, 6, 7, 6, 10, 9, 15, 75, 97, 97, 97, 97, 89, 91, 121,
             0, 0, 0, 0, 0, 0, 0, 0, 0x90, 0x00]] :: byte list list"
  let ?scriptB = "[[1, 2, 3, 4, 5, 6, 7, 8, 0x90, 0x00],
            [79, 84, 84, 86, 86, 85, 85, 90, 151, 167, 167, 167, 167, 167, 167, 183,
             229, 249, 248, 249, 248, 246, 245, 25, 59, 71, 71, 75, 75, 77, 79, 99,
             0, 0, 0, 0, 0, 0, 0, 0, 0x90, 0x00]] :: byte list list"
  let ?e = "[79, 84, 84, 86, 86, 85, 85, 90, 157, 170, 171, 168, 169, 168, 167, 172,
             236, 254, 255, 254, 255, 253, 252, 6, 59, 82, 83, 84, 85, 82, 81, 96] :: byte list"
  let ?iv = "[59, 82, 83, 84, 85, 82, 81, 96] :: byte list"
  let ?decA = "[50, 91, 90, 93, 92, 91, 88, 105, 0, 0, 0, 0, 0, 0, 0, 0,
               1, 2, 3, 4, 5, 6, 7, 8, 9, 10, 11, 12, 13, 14, 15, 16] :: byte list"
  let ?decB = "[59, 82, 83, 84, 85, 82, 81, 96, 7, 7, 7, 7, 7, 7, 7, 7,
               1, 2, 3, 4, 5, 6, 7, 8, 9, 10, 11, 12, 13, 14, 15, 16] :: byte list"
  have keys: "emrtd_do_bac_keys toy_crypto ''L898902C<'' ''690806'' ''940623'' = Inr (?kenc, ?kmac)"
    by code_simp
  have short: "length [1, 2, 3, 4, 5, 6, 7, 8 :: byte] \<le> 8" by simp
  have enc: "des3_encrypt_cbc toy_crypto (replicate 8 0x00) ?kenc
               (rng 8 @ zero_init 8 [1, 2, 3, 4, 5, 6, 7, 8] @ rng 16) 32 = (?e, ?iv)"
    by code_simp
  have mac: "retail_mac toy_crypto ?kmac (zero_init 32 ?e) 32 = Inr [17, 90, 105, 106, 106, 99, 121, 122]"
    by code_simp
  have sha: "sha1_digest toy_crypto"
    by (simp add: sha1_digest_def toy_crypto_def toy_sha1_def)
  have chalA: "emrtd_get_challenge (scripted_chip ?scriptA) 8 False 0
                = (True, Some [1, 2, 3, 4, 5, 6, 7, 8], Suc 0)"
    unfolding emrtd_get_challenge_def by (rule scripted_exchange) simp_all
  have chalB: "emrtd_get_challenge (scripted_chip ?scriptB) 8 False 0
                = (True, Some [1, 2, 3, 4, 5, 6, 7, 8], Suc 0)"
    unfolding emrtd_get_challenge_def by (rule scripted_exchange) simp_all
  have authA: "emrtd_external_authenticate (scripted_chip ?scriptA)
               (zero_init 32 ?e @ zero_init 8 [17, 90, 105, 106, 106, 99, 121, 122]) 40 False (Suc 0)
               = (True, Some ?respA, Suc (Suc 0))"
    unfolding emrtd_external_authenticate_def by (rule scripted_exchange) simp_all
  have authB: "emrtd_external_authenticate (scripted_chip ?scriptB)
               (zero_init 32 ?e @ zero_init 8 [17, 90, 105, 106, 106, 99, 121, 122]) 40 False (Suc 0)
               = (True, Some ?respB, Suc (Suc 0))"
    unfolding emrtd_external_authenticate_def by (rule scripted_exchange) simp_all
  have decA: "?decA = zero_init 32 (fst (des3_decrypt_cbc toy_crypto ?iv ?kenc (zero_init 32 ?respA) 32))"
    by code_simp
  have decB: "?decB = zero_init 32 (fst (des3_decrypt_cbc toy_crypto ?iv ?kenc (zero_init 32 ?respB) 32))"
    by code_simp
  have cB: "take 8 (drop 8 ?decB) \<noteq> rng 8" by code_simp
  have cA: "take 8 (drop 8 ?decA) = rng 8" by code_simp
  have vA: "take 4 (drop 4 (zero_init 8 [1, 2, 3, 4, 5, 6, 7, 8])) @ take 4 (drop 4 (rng 8))
              = [5, 6, 7, 8, 0, 0, 0, 0 :: byte]"
    "map odd_parity (take 16 (sha1 toy_crypto (take 16 (drop 16 ?decA) @ [0x00, 0x00, 0x00, 0x01])))
       = [137, 138, 138, 140, 140, 143, 143, 145, 145, 146, 146, 148, 148, 151, 151, 152]"
    "map odd_parity (take 16 (sha1 toy_crypto (take 16 (drop 16 ?decA) @ [0x00, 0x00, 0x00, 0x02])))
       = [138, 138, 140, 140, 143, 143, 145, 145, 146, 146, 148, 148, 151, 151, 152, 152]"
    by code_simp+
  have two: "Suc (Suc 0) = 2" by simp
  have b: "emrtd_do_bac toy_crypto (scripted_chip ?scriptB) ''L898902C<'' ''690806'' ''940623'' False 0
            = (Inl Failed, 2)"
    using emrtd_do_bac_checks_second_block [OF keys chalB short enc mac authB decB sha,
        THEN conjunct1, rule_format, OF cB]
    unfolding two .
  have a: "emrtd_do_bac toy_crypto (scripted_chip ?scriptA) ''L898902C<'' ''690806'' ''940623'' False 0
     = (Inr ([5, 6, 7, 8, 0, 0, 0, 0],
             [137, 138, 138, 140, 140, 143, 143, 145, 145, 146, 146, 148, 148, 151, 151, 152],
             [138, 138, 140, 140, 143, 143, 145, 145, 146, 146, 148, 148, 151, 151, 152, 152]),
        2)"
    using emrtd_do_bac_checks_second_block [OF keys chalA short enc mac authA decA sha,
        THEN conjunct2, rule_format, OF cA]
    unfolding vA two .
  show ?thesis using a b by (intro conjI)
qed

text \<open>
  The claim C2 as stated asks for the first 8 bytes of the decrypted block to equal RND.IFD.
  Here a chip answers EXTERNAL AUTHENTICATE with the encryption of a block whose first 8
  bytes are 09 .. 09, whose next 8 bytes are zero and whose last 16 bytes are K.ICC: the first
  8 bytes differ from RND.IFD (zero), and the handshake succeeds.
\<close>

theorem emrtd_do_bac_first_bytes_counterexample:
  "take 8 (fst (des3_decrypt_cbc toy_crypto (replicate 8 0x00)
                  [88, 91, 91, 93, 93, 94, 94, 97, 97, 98, 98, 100, 100, 103, 103, 104]
                  [88, 93, 93, 95, 95, 94, 94, 99, 167, 177, 177, 181, 181, 179, 179, 189,
                   245, 7, 6, 7, 6, 10, 9, 15, 75, 97, 97, 97, 97, 89, 91, 121] 32))
     = [9, 9, 9, 9, 9, 9, 9, 9]
   \<and> rng 8 = [0, 0, 0, 0, 0, 0, 0, 0]
   \<and> emrtd_do_bac toy_crypto
        (scripted_chip
           [[1, 2, 3, 4, 5, 6, 7, 8, 0x90, 0x00],
            [88, 93, 93, 95, 95, 94, 94, 99, 167, 177, 177, 181, 181, 179, 179, 189,
             245, 7, 6, 7, 6, 10, 9, 15, 75, 97, 97, 97, 97, 89, 91, 121,
             0, 0, 0, 0, 0, 0, 0, 0, 0x90, 0x00]])
        ''L898902C<'' ''690806'' ''940623'' False 0
     = (Inr ([5, 6, 7, 8, 0, 0, 0, 0],
             [137, 138, 138, 140, 140, 143, 143, 145, 145, 146, 146, 148, 148, 151, 151, 152],
             [138, 138, 140, 140, 143, 143, 145, 145, 146, 146, 148, 148, 151, 151, 152, 152]),
        2)"
proof -
  let ?kenc = "[88, 91, 91, 93, 93, 94, 94, 97, 97, 98, 98, 100, 100, 103, 103, 104] :: byte list"
  let ?kmac = "[91, 91, 93, 93, 94, 94, 97, 97, 98, 98, 100, 100, 103, 103, 104, 104] :: byte list"
  let ?resp = "[88, 93, 93, 95, 95, 94, 94, 99, 167, 177, 177, 181, 181, 179, 179, 189,
                245, 7, 6, 7, 6, 10, 9, 15, 75, 97, 97, 97, 97, 89, 91, 121,
                0, 0, 0, 0, 0, 0, 0, 0] :: byte list"
  let ?script = "[[1, 2, 3, 4, 5, 6, 7, 8, 0x90, 0x00],
            [88, 93, 93, 95, 95, 94, 94, 99, 167, 177, 177, 181, 181, 179, 179, 189,
             245, 7, 6, 7, 6, 10, 9, 15, 75, 97, 97, 97, 97, 89, 91, 121,
             0, 0, 0, 0, 0, 0, 0, 0, 0x90, 0x00]] :: byte list list"
  let ?e = "[79, 84, 84, 86, 86, 85, 85, 90, 157, 170, 171, 168, 169, 168, 167, 172,
             236, 254, 255, 254, 255, 253, 252, 6, 59, 82, 83, 84, 85, 82, 81, 96] :: byte list"
  let ?iv = "[59, 82, 83, 84, 85, 82, 81, 96] :: byte list"
  let ?dec = "[50, 91, 90, 93, 92, 91, 88, 105, 0, 0, 0, 0, 0, 0, 0, 0,
               1, 2, 3, 4, 5, 6, 7, 8, 9, 10, 11, 12, 13, 14, 15, 16] :: byte list"
  have keys: "emrtd_do_bac_keys toy_crypto ''L898902C<'' ''690806'' ''940623'' = Inr (?kenc, ?kmac)"
    by code_simp
  have chal: "emrtd_get_challenge (scripted_chip ?script) 8 False 0
                = (True, Some [1, 2, 3, 4, 5, 6, 7, 8], Suc 0)"
    unfolding emrtd_get_challenge_def by (rule scripted_exchange) simp_all
  have short: "length [1, 2, 3, 4, 5, 6, 7, 8 :: byte] \<le> 8" by simp
  have enc: "des3_encrypt_cbc toy_crypto (replicate 8 0x00) ?kenc
               (rng 8 @ zero_init 8 [1, 2, 3, 4, 5, 6, 7, 8] @ rng 16) 32 = (?e, ?iv)"
    by code_simp
  have mac: "retail_mac toy_crypto ?kmac (zero_init 32 ?e) 32 = Inr [17, 90, 105, 106, 106, 99, 121, 122]"
    by code_simp
  have auth: "emrtd_external_authenticate (scripted_chip ?script)
               (zero_init 32 ?e @ zero_init 8 [17, 90, 105, 106, 106, 99, 121, 122]) 40 False (Suc 0)
               = (True, Some ?resp, Suc (Suc 0))"
    unfolding emrtd_external_authenticate_def by (rule scripted_exchange) simp_all
  have dec: "?dec = zero_init 32 (fst (des3_decrypt_cbc toy_crypto ?iv ?kenc (zero_init 32 ?resp) 32))"
    by code_simp
  have ks: "emrtd_deskey toy_crypto (map2 (XOR) (rng 16) (take 16 (drop 16 ?dec))) KENC_type 16
       = Inr [137, 138, 138, 140, 140, 143, 143, 145, 145, 146, 146, 148, 148, 151, 151, 152]"
    "emrtd_deskey toy_crypto (map2 (XOR) (rng 16) (take 16 (drop 16 ?dec))) KMAC_type 16
       = Inr [138, 138, 140, 140, 143, 143, 145, 145, 146, 146, 148, 148, 151, 151, 152, 152]"
    by code_simp+
  have c: "rng 8 = take 8 (drop 8 ?dec)" "take 4 (drop 4 (zero_init 8 [1, 2, 3, 4, 5, 6, 7, 8]))
       @ take 4 (drop 4 (rng 8)) = [5, 6, 7, 8, 0, 0, 0, 0 :: byte]"
    "rng 8 = [0, 0, 0, 0, 0, 0, 0, 0]"
    by code_simp+
  have first: "take 8 (fst (des3_decrypt_cbc toy_crypto (replicate 8 0x00) ?kenc (take 32 ?resp) 32))
     = [9, 9, 9, 9, 9, 9, 9, 9]"
    by code_simp
  have run: "emrtd_do_bac toy_crypto (scripted_chip ?script) ''L898902C<'' ''690806'' ''940623'' False 0
     = (Inr ([5, 6, 7, 8, 0, 0, 0, 0],
             [137, 138, 138, 140, 140, 143, 143, 145, 145, 146, 146, 148, 148, 151, 151, 152],
             [138, 138, 140, 140, 143, 143, 145, 145, 146, 146, 148, 148, 151, 151, 152, 152]),
        2)"
    unfolding do_bac_after_auth [OF keys chal short enc mac auth dec] ks
    using c by simp
  show ?thesis using first c(3) run by simp
qed

subsection \<open>The counter in a secured exchange\<close>












section \<open>A secure read whose MAC does not match\<close>











section \<open>The reads of a file read\<close>





















end
